theory Spec2Isabelle
  imports
    Main
    "HOL-Library.AList"
    "HOL-Library.Char_ord"
    "HOL-Library.List_Lexorder"
    "HOL-Library.Sublist"
    "HOL-Library.Multiset"
begin

section \<open>Values shared by both scripts\<close>

text \<open>
  Strings are byte strings (UTF-8); the order on them is the lexicographic order on bytes,
  which is the order Python's \<^verbatim>\<open>sorted\<close> uses on \<^verbatim>\<open>str\<close> (code point order and
  UTF-8 byte order agree).

  A CSV file is modelled at the level of \<^verbatim>\<open>csv.reader\<close>: the list of its rows, each row
  the list of its fields.  A written CSV file is modelled at the level of
  \<^verbatim>\<open>csv.writer.writerow\<close>: the list of the rows handed to the writer, each cell still a
  string or an integer.
\<close>

type_synonym row = "string list"

datatype cell = S string | I int

datatype error = StopIteration | ValueError | IndexError

definition INITIAL_DATE :: string where
  "INITIAL_DATE = ''2024-11-01 00:00:00''"

definition OUTPUT_CSV :: string where
  "OUTPUT_CSV = ''code_growth_total.csv''"

text \<open>Sequencing of steps that may raise: the first exception ends the computation.\<close>

definition bindE :: "error + 'a \<Rightarrow> ('a \<Rightarrow> error + 'b) \<Rightarrow> error + 'b" where
  "bindE m f = (case m of Inl e \<Rightarrow> Inl e | Inr x \<Rightarrow> f x)"

text \<open>\<^verbatim>\<open>xs[i]\<close> for a non-negative index: out of range raises \<^verbatim>\<open>IndexError\<close>.\<close>

definition item :: "'a list \<Rightarrow> nat \<Rightarrow> error + 'a" where
  "item xs i = (if i < length xs then Inr (xs ! i) else Inl IndexError)"

subsection \<open>Python's \<^verbatim>\<open>int(str)\<close>\<close>

text \<open>
  \<^verbatim>\<open>int\<close> is a built-in of the interpreter, not code of the repository, and which
  strings it accepts depends on the interpreter: on its table of Unicode digits and
  spaces, and on its limit on the number of digits, which the environment can change.  The
  model therefore takes it as the parameter \<open>py_int\<close> of every function that reaches a call
  of \<^verbatim>\<open>int\<close>: \<open>py_int s\<close> is the integer \<^verbatim>\<open>int(s)\<close> returns, or \<open>None\<close> when
  \<^verbatim>\<open>int(s)\<close> raises \<^verbatim>\<open>ValueError\<close>, the only exception it raises on a string.  Every
  theorem with a free \<open>py_int\<close> holds for every such function.
\<close>

type_synonym int_builtin = "string \<Rightarrow> int option"

definition to_int :: "int_builtin \<Rightarrow> string \<Rightarrow> error + int" where
  "to_int py_int s = (case py_int s of None \<Rightarrow> Inl ValueError | Some n \<Rightarrow> Inr n)"

section \<open>The aggregator: \<^verbatim>\<open>code_growth_total.py\<close>\<close>

subsection \<open>The accumulator \<^verbatim>\<open>combined_data\<close>\<close>

text \<open>
  \<^verbatim>\<open>combined_data = defaultdict(lambda: defaultdict(int))\<close>: a dictionary from dates to
  dictionaries from keys to integers.  Dictionaries are association lists in insertion
  order; reading a missing key of the inner dictionary gives 0, of the outer one the empty
  inner dictionary.  The key \<^verbatim>\<open>"total_loc"\<close> of the inner dictionary shares its name
  space with the language names.
\<close>

type_synonym counts = "(string \<times> int) list"
type_synonym combined = "(string \<times> counts) list"

definition dget :: "counts \<Rightarrow> string \<Rightarrow> int" where
  "dget data k = (case map_of data k of None \<Rightarrow> 0 | Some v \<Rightarrow> v)"

definition cget :: "combined \<Rightarrow> string \<Rightarrow> counts" where
  "cget cd date = (case map_of cd date of None \<Rightarrow> [] | Some data \<Rightarrow> data)"

text \<open>\<^verbatim>\<open>combined_data[date][k] += v\<close>\<close>

definition cadd :: "string \<Rightarrow> string \<Rightarrow> int \<Rightarrow> combined \<Rightarrow> combined" where
  "cadd date k v cd =
     (let data = cget cd date
      in AList.update date (AList.update k (dget data k + v) data) cd)"

subsection \<open>One row (lines 64 to 82)\<close>

text \<open>The loop \<^verbatim>\<open>for i, lang in enumerate(languages)\<close>, from index \<open>i\<close> on.\<close>

fun add_languages :: "int_builtin \<Rightarrow> string \<Rightarrow> row \<Rightarrow> nat \<Rightarrow> string list \<Rightarrow> combined \<Rightarrow> error + combined" where
  "add_languages py_int date row i [] cd = Inr cd"
| "add_languages py_int date row i (lang # langs) cd =
     (if i + 6 < length row then
        bindE (item row (i + 6)) (\<lambda>s.
          if s \<noteq> [] then
            bindE (to_int py_int s) (\<lambda>lang_loc.
              add_languages py_int date row (Suc i) langs (cadd date lang lang_loc cd))
          else add_languages py_int date row (Suc i) langs cd)
      else add_languages py_int date row (Suc i) langs cd)"

definition process_row :: "int_builtin \<Rightarrow> string list \<Rightarrow> row \<Rightarrow> combined \<Rightarrow> error + combined" where
  "process_row py_int languages row cd =
     (if length row < 6 then Inr cd
      else
        bindE (item row 0) (\<lambda>repo_name.
        bindE (item row 1) (\<lambda>commit_hash.
        bindE (item row 2) (\<lambda>date.
        bindE (item row 3) (\<lambda>author.
        bindE (bindE (item row 4) (\<lambda>s. if s \<noteq> [] then to_int py_int s else Inr 0)) (\<lambda>lines_of_code.
        bindE (bindE (item row 5) (\<lambda>s. if s \<noteq> [] then to_int py_int s else Inr 0)) (\<lambda>delta.
          add_languages py_int date row 0 languages (cadd date ''total_loc'' lines_of_code cd))))))))"

fun process_rows :: "int_builtin \<Rightarrow> string list \<Rightarrow> row list \<Rightarrow> combined \<Rightarrow> error + combined" where
  "process_rows py_int languages [] cd = Inr cd"
| "process_rows py_int languages (row # rows) cd =
     bindE (process_row py_int languages row cd) (process_rows py_int languages rows)"

subsection \<open>One file, all files, the output (lines 33 to 113)\<close>

text \<open>
  The state of the first loop is \<^verbatim>\<open>combined_data\<close> and the set \<^verbatim>\<open>all_languages\<close>.
  \<^verbatim>\<open>next(reader)\<close> on a file without a single row raises \<^verbatim>\<open>StopIteration\<close>.
\<close>

type_synonym csv_file = "string \<times> row list"

fun process_file :: "int_builtin \<Rightarrow> row list \<Rightarrow> combined \<times> string set \<Rightarrow> error + combined \<times> string set" where
  "process_file py_int [] (cd, all_languages) = Inl StopIteration"
| "process_file py_int (header # rows) (cd, all_languages) =
     (let languages = drop 6 header;
          all_languages = all_languages \<union> set languages
      in bindE (process_rows py_int languages rows cd) (\<lambda>cd'. Inr (cd', all_languages)))"

fun process_files :: "int_builtin \<Rightarrow> csv_file list \<Rightarrow> combined \<times> string set \<Rightarrow> error + combined \<times> string set" where
  "process_files py_int [] st = Inr st"
| "process_files py_int (f # fs) st = bindE (process_file py_int (snd f) st) (process_files py_int fs)"

text \<open>The files of the directory that the script reads.\<close>

definition csv_files :: "csv_file list \<Rightarrow> csv_file list" where
  "csv_files listdir =
     filter (\<lambda>f. prefix ''code_growth-'' (fst f) \<and> suffix ''.csv'' (fst f)) listdir"

text \<open>The second loop: lines 84 to 110, the rows handed to the writer.\<close>

definition output_rows :: "combined \<Rightarrow> string set \<Rightarrow> cell list list" where
  "output_rows combined_data all_languages =
     (let sorted_languages = sorted_list_of_set all_languages;
          header = [S ''date'', S ''total_loc''] @ map S sorted_languages;
          initial_row = [S INITIAL_DATE, I 0] @ replicate (length sorted_languages) (I 0);
          sorted_dates = sort (filter (\<lambda>d. d \<noteq> INITIAL_DATE) (map fst combined_data))
      in header # initial_row #
         map (\<lambda>date. let data = cget combined_data date
                     in [S date, I (dget data ''total_loc'')] @
                        map (\<lambda>lang. I (dget data lang)) sorted_languages)
             sorted_dates)"

text \<open>
  \<open>main\<close> takes the directory listing (names with the rows of each file, in the order
  \<^verbatim>\<open>os.listdir\<close> gives them).  The result is an exception, or \<open>None\<close> when the script
  returns without writing, or the rows written to \<^verbatim>\<open>code_growth_total.csv\<close>.  An
  exception in the first loop is raised before the output file is opened.
\<close>

definition main :: "int_builtin \<Rightarrow> csv_file list \<Rightarrow> error + cell list list option" where
  "main py_int listdir =
     (let files = csv_files listdir
      in if files = [] then Inr None
         else bindE (process_files py_int files ([], {})) (\<lambda>(combined_data, all_languages).
                Inr (Some (output_rows combined_data all_languages))))"

text \<open>What a run leaves in \<^verbatim>\<open>code_growth_total.csv\<close>, if it writes the file at all.\<close>

definition written :: "error + cell list list option \<Rightarrow> cell list list option" where
  "written r = (case r of Inl e \<Rightarrow> None | Inr out \<Rightarrow> out)"

section \<open>The per-repository series builder: \<^verbatim>\<open>create_loc_csv.py\<close>\<close>

text \<open>
  The commit loop of \<^verbatim>\<open>generate_csv\<close> (lines 207 to 270) for one repository.  A commit
  carries what the loop reads from it and the outcome of the external steps of its
  iteration.  \<open>cloc\<close> is the outcome of checking the commit out and running the line
  counter: \<open>None\<close> when the checkout, the counter or the parsing of its JSON raises,
  otherwise the entries of the JSON object in order, each with its \<^verbatim>\<open>"code"\<close> count
  (\<open>None\<close> for an entry without one, whose lookup raises).  \<open>writes\<close> is the outcome of
  the two writes of lines 262 to 266, when the iteration gets there: both succeed; or
  opening the per-repository file or writing the row to it raises (as
  \<^verbatim>\<open>UnicodeEncodeError\<close> does for an author name that the encoding of the file cannot
  encode) and nothing is appended; or the row is appended to the per-repository file and
  the write to the combined file raises.  \<open>committed_date\<close> is the timestamp already
  formatted as \<^verbatim>\<open>%Y-%m-%d %H:%M:%S\<close>.  The model gives the rows appended to the
  per-repository file, not the bytes that are in the file at the end.
\<close>

datatype writes = Both_written | Repo_write_raises | Combined_write_raises

record commit =
  hexsha :: string
  committed_date :: string
  author_name :: string
  cloc :: "(string \<times> int option) list option"
  writes :: writes

text \<open>\<^verbatim>\<open>lang_lines = {lang: 0 for lang in language_columns}\<close>\<close>

definition init_lang_lines :: "string list \<Rightarrow> counts" where
  "init_lang_lines language_columns = fold (\<lambda>lang. AList.update lang 0) language_columns []"

text \<open>The loop \<^verbatim>\<open>for lang in cloc_data\<close> (lines 237 to 241); \<open>None\<close> is an exception.\<close>

fun count_lines :: "(string \<times> int option) list \<Rightarrow> counts \<times> int \<Rightarrow> (counts \<times> int) option" where
  "count_lines [] (lang_lines, total_lines) = Some (lang_lines, total_lines)"
| "count_lines ((lang, entry) # rest) (lang_lines, total_lines) =
     (if lang \<notin> set [''header'', ''SUM''] then
        if lang \<in> set (map fst lang_lines) then
          (case entry of
             None \<Rightarrow> None
           | Some code \<Rightarrow>
               count_lines rest (AList.update lang code lang_lines, total_lines + code))
        else count_lines rest (lang_lines, total_lines)
      else count_lines rest (lang_lines, total_lines))"

text \<open>
  One iteration of the loop over the commits.  The result is the row appended to the
  per-repository file, if any, and the value of \<^verbatim>\<open>prev_total_lines\<close> afterwards.  Every
  exception ends the iteration (\<^verbatim>\<open>except Exception ... continue\<close>).  Line 245 assigns
  \<^verbatim>\<open>prev_total_lines\<close> before the row is built and written, so an exception raised by
  lines 248 to 266 leaves the new value in the variable.
\<close>

definition process_commit ::
    "string \<Rightarrow> string list \<Rightarrow> nat \<Rightarrow> commit \<Rightarrow> int \<Rightarrow> cell list option \<times> int" where
  "process_commit repo_short_name language_columns i c prev_total_lines =
     (case cloc c of
        None \<Rightarrow> (None, prev_total_lines)
      | Some cloc_data \<Rightarrow>
          (case count_lines cloc_data (init_lang_lines language_columns, 0) of
             None \<Rightarrow> (None, prev_total_lines)
           | Some (lang_lines, total_lines) \<Rightarrow>
               (let delta = (if i > 0 then total_lines - prev_total_lines else total_lines)
                in case those (map (map_of lang_lines) language_columns) of
                     None \<Rightarrow> (None, total_lines)
                   | Some vals \<Rightarrow>
                       (let row_data =
                              [S repo_short_name, S (take 7 (hexsha c)), S (committed_date c),
                               S (author_name c), I total_lines, I delta] @ map I vals
                        in case writes c of
                             Both_written \<Rightarrow> (Some row_data, total_lines)
                           | Repo_write_raises \<Rightarrow> (None, total_lines)
                           | Combined_write_raises \<Rightarrow> (Some row_data, total_lines)))))"

fun process_commits ::
    "string \<Rightarrow> string list \<Rightarrow> nat \<Rightarrow> commit list \<Rightarrow> int \<Rightarrow> cell list list" where
  "process_commits repo_short_name language_columns i [] prev_total_lines = []"
| "process_commits repo_short_name language_columns i (c # commits) prev_total_lines =
     (case process_commit repo_short_name language_columns i c prev_total_lines of
        (None, prev') \<Rightarrow> process_commits repo_short_name language_columns (Suc i) commits prev'
      | (Some row, prev') \<Rightarrow>
          row # process_commits repo_short_name language_columns (Suc i) commits prev')"

text \<open>The rows of one repository after its anchor row: the loop from \<open>i = 0\<close> and
  \<^verbatim>\<open>prev_total_lines = 0\<close>.\<close>

definition commit_rows :: "string \<Rightarrow> string list \<Rightarrow> commit list \<Rightarrow> cell list list" where
  "commit_rows repo_short_name language_columns commits =
     process_commits repo_short_name language_columns 0 commits 0"

section \<open>Notions used to state the properties\<close>

subsection \<open>Reading the accumulator and the rows\<close>

definition acc :: "combined \<Rightarrow> string \<Rightarrow> string \<Rightarrow> int" where
  "acc cd d k = dget (cget cd d) k"

definition dates :: "combined \<Rightarrow> string set" where
  "dates cd = set (map fst cd)"

definition the_int :: "int option \<Rightarrow> int" where
  "the_int v = (case v of None \<Rightarrow> 0 | Some n \<Rightarrow> n)"

text \<open>The value of a numeric field as lines 72, 73 and 80 read it: empty is 0, \<open>None\<close>
  stands for \<^verbatim>\<open>ValueError\<close>.\<close>

definition field_val :: "int_builtin \<Rightarrow> string \<Rightarrow> int option" where
  "field_val py_int s = (if s \<noteq> [] then py_int s else Some 0)"

text \<open>The value read for the language column \<open>i\<close> of a row: 0 beyond the row's end.\<close>

definition lang_field :: "int_builtin \<Rightarrow> row \<Rightarrow> nat \<Rightarrow> int option" where
  "lang_field py_int row i = (if i + 6 < length row then field_val py_int (row ! (i + 6)) else Some 0)"

fun langs_ok :: "int_builtin \<Rightarrow> row \<Rightarrow> nat \<Rightarrow> string list \<Rightarrow> bool" where
  "langs_ok py_int row i [] = True"
| "langs_ok py_int row i (lang # langs) = (lang_field py_int row i \<noteq> None \<and> langs_ok py_int row (Suc i) langs)"

text \<open>What the language columns of a row (from column \<open>i\<close> on) hold for the name \<open>k\<close>:
  the sum over the columns of that name.\<close>

fun lang_adds :: "int_builtin \<Rightarrow> row \<Rightarrow> nat \<Rightarrow> string list \<Rightarrow> string \<Rightarrow> int" where
  "lang_adds py_int row i [] k = 0"
| "lang_adds py_int row i (lang # langs) k =
     (if lang = k then the_int (lang_field py_int row i) else 0) + lang_adds py_int row (Suc i) langs k"

text \<open>A row that raises no exception: it is skipped, or all the numbers it is read for
  are integers.\<close>

definition row_ok :: "int_builtin \<Rightarrow> string list \<Rightarrow> row \<Rightarrow> bool" where
  "row_ok py_int languages row \<longleftrightarrow>
     length row < 6 \<or>
     field_val py_int (row ! 4) \<noteq> None \<and> field_val py_int (row ! 5) \<noteq> None \<and> langs_ok py_int row 0 languages"

text \<open>What a row adds to the accumulator at date \<open>d\<close> and key \<open>k\<close>.\<close>

definition row_adds :: "int_builtin \<Rightarrow> string list \<Rightarrow> row \<Rightarrow> string \<Rightarrow> string \<Rightarrow> int" where
  "row_adds py_int languages row d k =
     (if length row < 6 \<or> row ! 2 \<noteq> d then 0
      else (if k = ''total_loc'' then the_int (field_val py_int (row ! 4)) else 0) +
           lang_adds py_int row 0 languages k)"

definition row_dates :: "row \<Rightarrow> string set" where
  "row_dates row = (if length row < 6 then {} else {row ! 2})"

text \<open>\<open>steps cd cd' D f\<close>: the accumulator \<open>cd'\<close> is \<open>cd\<close> with the dates \<open>D\<close> added to
  its keys and \<open>f d k\<close> added at every date and key.\<close>

definition steps :: "combined \<Rightarrow> combined \<Rightarrow> string set \<Rightarrow> (string \<Rightarrow> string \<Rightarrow> int) \<Rightarrow> bool" where
  "steps cd cd' D f \<longleftrightarrow>
     (distinct (map fst cd) \<longrightarrow> distinct (map fst cd')) \<and>
     dates cd' = dates cd \<union> D \<and>
     (\<forall>d k. acc cd' d k = acc cd d k + f d k)"

definition rows_adds :: "int_builtin \<Rightarrow> string list \<Rightarrow> row list \<Rightarrow> string \<Rightarrow> string \<Rightarrow> int" where
  "rows_adds py_int languages rows d k = (\<Sum>r\<leftarrow>rows. row_adds py_int languages r d k)"

definition rows_dates :: "row list \<Rightarrow> string set" where
  "rows_dates rows = (\<Union>r\<in>set rows. row_dates r)"

definition file_ok :: "int_builtin \<Rightarrow> row list \<Rightarrow> bool" where
  "file_ok py_int rows =
     (case rows of [] \<Rightarrow> False | header # rows' \<Rightarrow> list_all (row_ok py_int (drop 6 header)) rows')"

definition file_languages :: "row list \<Rightarrow> string list" where
  "file_languages rows = (case rows of [] \<Rightarrow> [] | header # rows' \<Rightarrow> drop 6 header)"

definition file_adds :: "int_builtin \<Rightarrow> row list \<Rightarrow> string \<Rightarrow> string \<Rightarrow> int" where
  "file_adds py_int rows d k =
     (case rows of [] \<Rightarrow> 0 | header # rows' \<Rightarrow> rows_adds py_int (drop 6 header) rows' d k)"

definition file_dates :: "row list \<Rightarrow> string set" where
  "file_dates rows = (case rows of [] \<Rightarrow> {} | header # rows' \<Rightarrow> rows_dates rows')"

definition all_adds :: "int_builtin \<Rightarrow> csv_file list \<Rightarrow> string \<Rightarrow> string \<Rightarrow> int" where
  "all_adds py_int files d k = (\<Sum>f\<leftarrow>files. file_adds py_int (snd f) d k)"

definition all_dates :: "csv_file list \<Rightarrow> string set" where
  "all_dates files = (\<Union>f\<in>set files. file_dates (snd f))"

text \<open>The union of the language names of all headers.\<close>

definition all_langs :: "csv_file list \<Rightarrow> string set" where
  "all_langs files = (\<Union>f\<in>set files. set (file_languages (snd f)))"

text \<open>The rows written, from the sums, the set of dates and the set of languages.\<close>

definition rows_of :: "(string \<Rightarrow> string \<Rightarrow> int) \<Rightarrow> string set \<Rightarrow> string set \<Rightarrow> cell list list" where
  "rows_of a D A =
     (let ls = sorted_list_of_set A
      in ([S ''date'', S ''total_loc''] @ map S ls) #
         ([S INITIAL_DATE, I 0] @ replicate (length ls) (I 0)) #
         map (\<lambda>d. [S d, I (a d ''total_loc'')] @ map (\<lambda>l. I (a d l)) ls)
             (sorted_list_of_set (D - {INITIAL_DATE})))"

definition date_of :: "cell list \<Rightarrow> string" where
  "date_of r = (case r of S d # cells \<Rightarrow> d | _ \<Rightarrow> [])"

definition cell_int :: "cell \<Rightarrow> int" where
  "cell_int c = (case c of I n \<Rightarrow> n | S s \<Rightarrow> 0)"

subsection \<open>Records of the input\<close>

text \<open>The records of a file (its data rows that are not skipped) at date \<open>d\<close>.\<close>

definition records_at :: "string \<Rightarrow> row list \<Rightarrow> row list" where
  "records_at d rows = filter (\<lambda>r. 6 \<le> length r \<and> r ! 2 = d) (tl rows)"

definition record_total :: "int_builtin \<Rightarrow> row \<Rightarrow> int" where
  "record_total py_int r = the_int (field_val py_int (r ! 4))"

text \<open>The value of a record for the language \<open>l\<close>, under a header with the language
  columns \<open>languages\<close>: the sum of its fields in the columns of that name.\<close>

definition record_lang :: "int_builtin \<Rightarrow> string list \<Rightarrow> row \<Rightarrow> string \<Rightarrow> int" where
  "record_lang py_int languages r l = lang_adds py_int r 0 languages l"

text \<open>
  The per-record invariant of the input: every language column of the header is present
  as a field, the language fields and \<^verbatim>\<open>lines_of_code\<close> are integers (an empty field
  counts as 0, as the aggregator reads it), and \<^verbatim>\<open>lines_of_code\<close> is the sum of the
  language fields.
\<close>

definition row_invariant :: "int_builtin \<Rightarrow> string list \<Rightarrow> row \<Rightarrow> bool" where
  "row_invariant py_int languages row \<longleftrightarrow>
     6 + length languages \<le> length row \<and>
     (let fields = map (field_val py_int) (take (length languages) (drop 6 row))
      in list_all (\<lambda>v. v \<noteq> None) fields \<and>
         field_val py_int (row ! 4) = Some (sum_list (map the_int fields)))"

text \<open>A record has a field for the language \<open>l\<close>: some column of that name is within the
  row and not empty.\<close>

definition contributes :: "string list \<Rightarrow> row \<Rightarrow> string \<Rightarrow> bool" where
  "contributes languages row l \<longleftrightarrow>
     list_ex (\<lambda>i. languages ! i = l \<and> i + 6 < length row \<and> row ! (i + 6) \<noteq> [])
       [0..<length languages]"

definition no_contribution :: "csv_file list \<Rightarrow> string \<Rightarrow> string \<Rightarrow> bool" where
  "no_contribution files d l \<longleftrightarrow>
     list_all (\<lambda>f. list_all (\<lambda>r. \<not> contributes (file_languages (snd f)) r l)
                      (records_at d (snd f))) files"

text \<open>A file without its records at the anchor date.\<close>

definition without_anchor_records :: "csv_file \<Rightarrow> csv_file" where
  "without_anchor_records f =
     (fst f, case snd f of
               [] \<Rightarrow> []
             | header # rows \<Rightarrow>
                 header # filter (\<lambda>r. \<not> (6 \<le> length r \<and> r ! 2 = INITIAL_DATE)) rows)"

subsection \<open>Reading the rows of the builder\<close>

definition row_total :: "cell list \<Rightarrow> int" where
  "row_total r = cell_int (r ! 4)"

definition row_delta :: "cell list \<Rightarrow> int" where
  "row_delta r = cell_int (r ! 5)"

text \<open>The total counted at a commit, \<open>None\<close> for a commit whose checkout or count
  fails.\<close>

definition commit_total :: "string list \<Rightarrow> commit \<Rightarrow> int option" where
  "commit_total language_columns c =
     (case cloc c of
        None \<Rightarrow> None
      | Some cloc_data \<Rightarrow>
          map_option snd (count_lines cloc_data (init_lang_lines language_columns, 0)))"

text \<open>The differences of a sequence of totals, each with the one before it, the first
  with \<open>prev\<close>.\<close>

fun deltas_from :: "int \<Rightarrow> int list \<Rightarrow> int list" where
  "deltas_from prev [] = []"
| "deltas_from prev (t # ts) = (t - prev) # deltas_from t ts"

subsection \<open>Inputs used as instances\<close>

text \<open>
  The instances are evaluated with \<open>plain_decimal\<close> for the parameter \<open>py_int\<close>.  It
  is not a model of \<^verbatim>\<open>int\<close>: it reads only a plain literal, an optional minus sign and 1
  to 18 ASCII digits, and there it gives the number that \<^verbatim>\<open>int\<close> gives.  The only other
  string it is applied to below is \<^verbatim>\<open>n/a\<close>, which \<^verbatim>\<open>int\<close> rejects as well.
\<close>

definition plain_digits :: "string \<Rightarrow> bool" where
  "plain_digits ds \<longleftrightarrow>
     ds \<noteq> [] \<and> length ds \<le> 18 \<and> list_all (\<lambda>c. CHR ''0'' \<le> c \<and> c \<le> CHR ''9'') ds"

definition digits_value :: "string \<Rightarrow> int" where
  "digits_value ds = foldl (\<lambda>n c. 10 * n + (of_char c - 48)) 0 ds"

definition plain_decimal :: int_builtin where
  "plain_decimal s =
     (case s of
        [] \<Rightarrow> None
      | c # cs \<Rightarrow>
          if c = CHR ''-'' then (if plain_digits cs then Some (- digits_value cs) else None)
          else if plain_digits s then Some (digits_value s)
          else None)"

definition series_header :: "string list \<Rightarrow> row" where
  "series_header languages =
     [''repo_name'', ''commit_hash'', ''datetime'', ''author'', ''lines_of_code'', ''delta'']
     @ languages"

text \<open>Two series that report on the same date, with the language sets \<open>{A}\<close> and \<open>{B}\<close>.\<close>

definition series_A :: csv_file where
  "series_A =
     (''code_growth-a.csv'',
      [series_header [''A''],
       [''a'', ''initial'', ''2024-11-01 00:00:00'', ''N/A'', ''0'', ''0'', ''0''],
       [''a'', ''1a2b3c4'', ''2025-01-01 10:00:00'', ''ann'', ''100'', ''100'', ''100'']])"

definition series_B :: csv_file where
  "series_B =
     (''code_growth-b.csv'',
      [series_header [''B''],
       [''b'', ''initial'', ''2024-11-01 00:00:00'', ''N/A'', ''0'', ''0'', ''0''],
       [''b'', ''5d6e7f8'', ''2025-01-01 10:00:00'', ''bob'', ''100'', ''100'', ''100'']])"

text \<open>A series with a record at the anchor date that is not zero.\<close>

definition series_at_anchor :: csv_file where
  "series_at_anchor =
     (''code_growth-c.csv'',
      [series_header [''A''],
       [''c'', ''0f0f0f0'', ''2024-11-01 00:00:00'', ''cy'', ''50'', ''50'', ''50''],
       [''c'', ''1e1e1e1'', ''2025-02-01 09:30:00'', ''cy'', ''70'', ''20'', ''70'']])"

text \<open>A series with a commit older than the anchor date.\<close>

definition series_early :: csv_file where
  "series_early =
     (''code_growth-d.csv'',
      [series_header [''A''],
       [''d'', ''initial'', ''2024-11-01 00:00:00'', ''N/A'', ''0'', ''0'', ''0''],
       [''d'', ''2b2b2b2'', ''2023-05-01 12:00:00'', ''dee'', ''10'', ''10'', ''10'']])"

text \<open>A series with two language columns whose record ends before the second one.\<close>

definition series_later :: csv_file where
  "series_later =
     (''code_growth-f.csv'',
      [series_header [''B'', ''C''],
       [''f'', ''4d4d4d4'', ''2025-03-01 08:00:00'', ''fay'', ''30'', ''30'', ''30'']])"

text \<open>Two commits of one repository.  Both are counted; the row of the first one cannot be
  written, its author name (in UTF-8) having a letter outside the encoding of the file.\<close>

definition unwritable_then_written :: "commit list" where
  "unwritable_then_written =
     [\<lparr>hexsha = ''1a2b3c4d5e'', committed_date = ''2025-01-01 10:00:00'',
       author_name = [CHR 0xC5, CHR 0x81] @ ''ukasz'',
       cloc = Some [(''header'', None), (''Python'', Some 10), (''SUM'', Some 10)],
       writes = Repo_write_raises\<rparr>,
      \<lparr>hexsha = ''2b3c4d5e6f'', committed_date = ''2025-01-02 10:00:00'', author_name = ''ann'',
       cloc = Some [(''header'', None), (''Python'', Some 25), (''SUM'', Some 25)],
       writes = Both_written\<rparr>]"

section \<open>The aggregator computes the sums of its input\<close>

lemma dget_update: "dget (AList.update k v data) k' = (if k' = k then v else dget data k')"
  by (simp add: dget_def update_conv')

lemma cget_update: "cget (AList.update d x cd) d' = (if d' = d then x else cget cd d')"
  by (simp add: cget_def update_conv')

lemma acc_Nil: "acc [] d k = 0"
  by (simp add: acc_def cget_def dget_def)

lemma acc_cadd: "acc (cadd date k v cd) d' k' = acc cd d' k' + (if d' = date \<and> k' = k then v else 0)"
  by (simp add: acc_def cadd_def Let_def cget_update dget_update)

lemma dates_cadd: "dates (cadd date k v cd) = insert date (dates cd)"
  by (simp add: dates_def cadd_def Let_def dom_update)

lemma distinct_cadd: "distinct (map fst cd) \<Longrightarrow> distinct (map fst (cadd date k v cd))"
  by (simp add: cadd_def Let_def distinct_update)

lemma item_in: "i < length xs \<Longrightarrow> item xs i = Inr (xs ! i)"
  by (simp add: item_def)

lemma bindE_Inr: "bindE (Inr x) f = f x"
  by (simp add: bindE_def)

lemma bindE_Inl: "bindE (Inl e) f = Inl e"
  by (simp add: bindE_def)

lemma steps_refl: "steps cd cd {} (\<lambda>d k. 0)"
  by (simp add: steps_def)

lemma steps_cadd: "steps cd (cadd date k v cd) {date} (\<lambda>d' k'. if d' = date \<and> k' = k then v else 0)"
  by (simp add: steps_def acc_cadd dates_cadd distinct_cadd)

lemma steps_trans:
  "steps cd cd1 D1 f1 \<Longrightarrow> steps cd1 cd2 D2 f2 \<Longrightarrow> steps cd cd2 (D1 \<union> D2) (\<lambda>d k. f1 d k + f2 d k)"
  by (auto simp: steps_def)

lemma steps_cong: "steps cd cd' D f \<Longrightarrow> D = D' \<Longrightarrow> (\<And>d k. f d k = f' d k) \<Longrightarrow> steps cd cd' D' f'"
  by (simp add: steps_def)

lemma add_languages_ok:
  "langs_ok py_int row i langs \<Longrightarrow> date \<in> dates cd \<Longrightarrow>
   \<exists>cd'. add_languages py_int date row i langs cd = Inr cd' \<and>
         steps cd cd' {} (\<lambda>d k. if d = date then lang_adds py_int row i langs k else 0)"
proof (induction langs arbitrary: i cd)
  case Nil
  then show ?case by (simp add: steps_def)
next
  case (Cons lang langs)
  from Cons.prems have ok: "lang_field py_int row i \<noteq> None" and rest: "langs_ok py_int row (Suc i) langs"
    by simp_all
  show ?case
  proof (cases "i + 6 < length row \<and> row ! (i + 6) \<noteq> []")
    case True
    with ok obtain v where v: "py_int (row ! (i + 6)) = Some v"
      by (auto simp: lang_field_def field_val_def)
    have lf: "the_int (lang_field py_int row i) = v"
      using True v by (simp add: lang_field_def field_val_def the_int_def)
    let ?cd1 = "cadd date lang v cd"
    have "date \<in> dates ?cd1" by (simp add: dates_cadd)
    from Cons.IH[OF rest this] obtain cd' where
      run: "add_languages py_int date row (Suc i) langs ?cd1 = Inr cd'" and
      st: "steps ?cd1 cd' {} (\<lambda>d k. if d = date then lang_adds py_int row (Suc i) langs k else 0)"
      by blast
    have "steps cd cd' ({date} \<union> {})
            (\<lambda>d k. (if d = date \<and> k = lang then v else 0) +
                    (if d = date then lang_adds py_int row (Suc i) langs k else 0))"
      by (rule steps_trans[OF steps_cadd st])
    then have "steps cd cd' {} (\<lambda>d k. if d = date then lang_adds py_int row i (lang # langs) k else 0)"
      using Cons.prems(2) by (auto simp: steps_def lf)
    moreover have "add_languages py_int date row i (lang # langs) cd = Inr cd'"
      using True v run by (simp add: item_in bindE_Inr to_int_def)
    ultimately show ?thesis by blast
  next
    case False
    then have lf: "the_int (lang_field py_int row i) = 0"
      by (auto simp: lang_field_def field_val_def the_int_def)
    from Cons.IH[OF rest Cons.prems(2)] obtain cd' where
      run: "add_languages py_int date row (Suc i) langs cd = Inr cd'" and
      st: "steps cd cd' {} (\<lambda>d k. if d = date then lang_adds py_int row (Suc i) langs k else 0)"
      by blast
    have "add_languages py_int date row i (lang # langs) cd = Inr cd'"
      using False run by (auto simp: item_in bindE_Inr)
    moreover have "steps cd cd' {} (\<lambda>d k. if d = date then lang_adds py_int row i (lang # langs) k else 0)"
      by (rule steps_cong[OF st]) (simp_all add: lf)
    ultimately show ?thesis by blast
  qed
qed

lemma add_languages_bad:
  "\<not> langs_ok py_int row i langs \<Longrightarrow> add_languages py_int date row i langs cd = Inl ValueError"
proof (induction langs arbitrary: i cd)
  case Nil
  then show ?case by simp
next
  case (Cons lang langs)
  show ?case
  proof (cases "lang_field py_int row i")
    case None
    then show ?thesis
      by (auto simp: lang_field_def field_val_def item_in bindE_Inr bindE_Inl to_int_def
               split: if_splits)
  next
    case (Some v)
    with Cons.prems have "\<not> langs_ok py_int row (Suc i) langs" by simp
    from Cons.IH[OF this] show ?thesis
      by (auto simp: item_in bindE_Inr bindE_Inl to_int_def split: option.splits)
  qed
qed

lemma process_row_unfold:
  "6 \<le> length row \<Longrightarrow>
   process_row py_int languages row cd =
     (case field_val py_int (row ! 4) of
        None \<Rightarrow> Inl ValueError
      | Some loc \<Rightarrow>
          (case field_val py_int (row ! 5) of
             None \<Rightarrow> Inl ValueError
           | Some dl \<Rightarrow> add_languages py_int (row ! 2) row 0 languages (cadd (row ! 2) ''total_loc'' loc cd)))"
proof -
  assume "6 \<le> length row"
  then have "row \<noteq> []" "1 < length row" "2 < length row" "3 < length row" "4 < length row"
    "5 < length row" "\<not> length row < 6"
    by auto
  then show ?thesis
    by (simp add: process_row_def item_def bindE_def field_val_def to_int_def split: option.splits)
qed

lemma process_row_ok:
  assumes "row_ok py_int languages row"
  shows "\<exists>cd'. process_row py_int languages row cd = Inr cd' \<and>
           steps cd cd' (row_dates row) (row_adds py_int languages row)"
proof (cases "length row < 6")
  case True
  then show ?thesis
    by (auto simp: process_row_def row_dates_def row_adds_def intro: steps_cong[OF steps_refl])
next
  case False
  with assms obtain loc dl where
    loc: "field_val py_int (row ! 4) = Some loc" and dl: "field_val py_int (row ! 5) = Some dl" and
    ok: "langs_ok py_int row 0 languages"
    by (auto simp: row_ok_def)
  let ?date = "row ! 2"
  let ?cd1 = "cadd ?date ''total_loc'' loc cd"
  have "?date \<in> dates ?cd1" by (simp add: dates_cadd)
  from add_languages_ok[OF ok this] obtain cd' where
    run: "add_languages py_int ?date row 0 languages ?cd1 = Inr cd'" and
    st: "steps ?cd1 cd' {} (\<lambda>d k. if d = ?date then lang_adds py_int row 0 languages k else 0)"
    by blast
  have "process_row py_int languages row cd = Inr cd'"
    using False run loc dl by (simp add: process_row_unfold)
  moreover have "steps cd cd' (row_dates row) (row_adds py_int languages row)"
    using steps_trans[OF steps_cadd st] False
    by (auto simp: steps_def row_dates_def row_adds_def loc the_int_def)
  ultimately show ?thesis by blast
qed

lemma process_row_bad:
  assumes "\<not> row_ok py_int languages row"
  shows "process_row py_int languages row cd = Inl ValueError"
proof -
  from assms have len: "\<not> length row < 6" and
    bad: "field_val py_int (row ! 4) = None \<or> field_val py_int (row ! 5) = None \<or> \<not> langs_ok py_int row 0 languages"
    by (auto simp: row_ok_def)
  show ?thesis
    using len bad
    by (auto simp: process_row_unfold add_languages_bad split: option.splits)
qed

lemma process_rows_ok:
  "list_all (row_ok py_int languages) rows \<Longrightarrow>
   \<exists>cd'. process_rows py_int languages rows cd = Inr cd' \<and>
         steps cd cd' (rows_dates rows) (rows_adds py_int languages rows)"
proof (induction rows arbitrary: cd)
  case Nil
  then show ?case by (simp add: rows_dates_def rows_adds_def steps_def)
next
  case (Cons r rows)
  from Cons.prems have r: "row_ok py_int languages r" and rest: "list_all (row_ok py_int languages) rows"
    by simp_all
  from process_row_ok[OF r] obtain cd1 where
    run1: "process_row py_int languages r cd = Inr cd1" and
    st1: "steps cd cd1 (row_dates r) (row_adds py_int languages r)"
    by blast
  from Cons.IH[OF rest] obtain cd' where
    run2: "process_rows py_int languages rows cd1 = Inr cd'" and
    st2: "steps cd1 cd' (rows_dates rows) (rows_adds py_int languages rows)"
    by blast
  have "process_rows py_int languages (r # rows) cd = Inr cd'"
    using run1 run2 by (simp add: bindE_Inr)
  moreover have "steps cd cd' (rows_dates (r # rows)) (rows_adds py_int languages (r # rows))"
    by (rule steps_cong[OF steps_trans[OF st1 st2]]) (simp_all add: rows_dates_def rows_adds_def)
  ultimately show ?case by blast
qed

lemma process_rows_bad:
  "\<not> list_all (row_ok py_int languages) rows \<Longrightarrow> process_rows py_int languages rows cd = Inl ValueError"
proof (induction rows arbitrary: cd)
  case Nil
  then show ?case by simp
next
  case (Cons r rows)
  show ?case
  proof (cases "row_ok py_int languages r")
    case True
    with Cons.prems have "\<not> list_all (row_ok py_int languages) rows" by simp
    from Cons.IH[OF this] process_row_ok[OF True, where cd = cd] show ?thesis
      by (auto simp: bindE_Inr)
  next
    case False
    then show ?thesis by (simp add: process_row_bad bindE_Inl)
  qed
qed

lemma process_file_ok:
  assumes "file_ok py_int rows"
  shows "\<exists>cd'. process_file py_int rows (cd, A) = Inr (cd', A \<union> set (file_languages rows)) \<and>
           steps cd cd' (file_dates rows) (file_adds py_int rows)"
proof -
  from assms obtain header rows' where
    rows: "rows = header # rows'" and ok: "list_all (row_ok py_int (drop 6 header)) rows'"
    by (auto simp: file_ok_def split: list.splits)
  from process_rows_ok[OF ok] obtain cd' where
    run: "process_rows py_int (drop 6 header) rows' cd = Inr cd'" and
    st: "steps cd cd' (rows_dates rows') (rows_adds py_int (drop 6 header) rows')"
    by blast
  have "process_file py_int rows (cd, A) = Inr (cd', A \<union> set (file_languages rows))"
    using run by (simp add: rows file_languages_def bindE_Inr)
  moreover have "steps cd cd' (file_dates rows) (file_adds py_int rows)"
    by (rule steps_cong[OF st]) (simp_all add: rows file_dates_def file_adds_def)
  ultimately show ?thesis by blast
qed

lemma process_file_bad:
  assumes "\<not> file_ok py_int rows"
  shows "process_file py_int rows (cd, A) = Inl (if rows = [] then StopIteration else ValueError)"
proof (cases rows)
  case Nil
  then show ?thesis by simp
next
  case (Cons header rows')
  with assms have "\<not> list_all (row_ok py_int (drop 6 header)) rows'"
    by (simp add: file_ok_def)
  then show ?thesis
    by (simp add: Cons process_rows_bad bindE_Inl)
qed

lemma process_files_ok:
  "list_all (\<lambda>f. file_ok py_int (snd f)) files \<Longrightarrow>
   \<exists>cd'. process_files py_int files (cd, A) = Inr (cd', A \<union> all_langs files) \<and>
         steps cd cd' (all_dates files) (all_adds py_int files)"
proof (induction files arbitrary: cd A)
  case Nil
  then show ?case by (simp add: all_langs_def all_dates_def all_adds_def steps_def)
next
  case (Cons f files)
  from Cons.prems have f: "file_ok py_int (snd f)" and rest: "list_all (\<lambda>f. file_ok py_int (snd f)) files"
    by simp_all
  from process_file_ok[OF f] obtain cd1 where
    run1: "process_file py_int (snd f) (cd, A) = Inr (cd1, A \<union> set (file_languages (snd f)))" and
    st1: "steps cd cd1 (file_dates (snd f)) (file_adds py_int (snd f))"
    by blast
  from Cons.IH[OF rest] obtain cd' where
    run2: "process_files py_int files (cd1, A \<union> set (file_languages (snd f))) =
             Inr (cd', A \<union> set (file_languages (snd f)) \<union> all_langs files)" and
    st2: "steps cd1 cd' (all_dates files) (all_adds py_int files)"
    by blast
  have "process_files py_int (f # files) (cd, A) = Inr (cd', A \<union> all_langs (f # files))"
    using run1 run2 by (simp add: bindE_Inr all_langs_def Un_assoc)
  moreover have "steps cd cd' (all_dates (f # files)) (all_adds py_int (f # files))"
    by (rule steps_cong[OF steps_trans[OF st1 st2]]) (simp_all add: all_dates_def all_adds_def)
  ultimately show ?case by blast
qed

lemma process_files_bad:
  "\<not> list_all (\<lambda>f. file_ok py_int (snd f)) files \<Longrightarrow> \<exists>e. process_files py_int files (cd, A) = Inl e"
proof (induction files arbitrary: cd A)
  case Nil
  then show ?case by simp
next
  case (Cons f files)
  show ?case
  proof (cases "file_ok py_int (snd f)")
    case True
    with Cons.prems have "\<not> list_all (\<lambda>f. file_ok py_int (snd f)) files" by simp
    from Cons.IH[OF this] process_file_ok[OF True, where cd = cd and A = A] show ?thesis
      by (auto simp: bindE_Inr)
  next
    case False
    then show ?thesis by (simp add: process_file_bad bindE_Inl)
  qed
qed

lemma sort_filter_distinct:
  "distinct xs \<Longrightarrow> sort (filter P xs) = sorted_list_of_set {x \<in> set xs. P x}"
proof -
  assume "distinct xs"
  then have "remdups (filter P xs) = filter P xs"
    by (simp add: distinct_remdups_id)
  with sorted_list_of_set_sort_remdups[of "filter P xs"]
  have "sorted_list_of_set (set (filter P xs)) = sort (filter P xs)"
    by (simp only:)
  moreover have "set (filter P xs) = {x \<in> set xs. P x}" by simp
  ultimately show ?thesis by (simp only:)
qed

lemma output_rows_abs:
  assumes "distinct (map fst cd)"
  shows "output_rows cd A = rows_of (acc cd) (dates cd) A"
proof -
  have "{x \<in> set (map fst cd). x \<noteq> INITIAL_DATE} = dates cd - {INITIAL_DATE}"
    by (auto simp: dates_def)
  with sort_filter_distinct[OF assms, of "\<lambda>d. d \<noteq> INITIAL_DATE"]
  have "sort (filter (\<lambda>d. d \<noteq> INITIAL_DATE) (map fst cd)) =
        sorted_list_of_set (dates cd - {INITIAL_DATE})"
    by simp
  then show ?thesis
    by (simp add: output_rows_def rows_of_def Let_def acc_def)
qed

lemma main_ok:
  assumes "csv_files listdir \<noteq> []" and "list_all (\<lambda>f. file_ok py_int (snd f)) (csv_files listdir)"
  shows "main py_int listdir =
           Inr (Some (rows_of (all_adds py_int (csv_files listdir)) (all_dates (csv_files listdir))
                        (all_langs (csv_files listdir))))"
proof -
  from process_files_ok[OF assms(2), where cd = "[]" and A = "{}"] obtain cd' where
    run: "process_files py_int (csv_files listdir) ([], {}) = Inr (cd', all_langs (csv_files listdir))" and
    st: "steps [] cd' (all_dates (csv_files listdir)) (all_adds py_int (csv_files listdir))"
    by auto
  from st have d: "distinct (map fst cd')" and
    ds: "dates cd' = all_dates (csv_files listdir)" and
    ac: "acc cd' = all_adds py_int (csv_files listdir)"
    by (auto simp: steps_def dates_def acc_Nil fun_eq_iff)
  show ?thesis
    using assms(1) run by (simp add: main_def Let_def bindE_Inr output_rows_abs[OF d] ds ac)
qed

lemma main_bad:
  assumes "csv_files listdir \<noteq> []" and "\<not> list_all (\<lambda>f. file_ok py_int (snd f)) (csv_files listdir)"
  shows "\<exists>e. main py_int listdir = Inl e"
  using assms(1) process_files_bad[OF assms(2), where cd = "[]" and A = "{}"]
  by (auto simp: main_def Let_def bindE_Inl)

lemma main_empty: "csv_files listdir = [] \<Longrightarrow> main py_int listdir = Inr None"
  by (simp add: main_def)

section \<open>Rows that are skipped\<close>

lemma process_rows_skip:
  assumes "length r < 6"
  shows "process_rows py_int languages (rows1 @ r # rows2) cd = process_rows py_int languages (rows1 @ rows2) cd"
proof (induction rows1 arbitrary: cd)
  case Nil
  from assms show ?case by (simp add: process_row_def bindE_Inr)
next
  case (Cons x rows1)
  have "process_rows py_int languages (rows1 @ r # rows2) = process_rows py_int languages (rows1 @ rows2)"
    by (rule ext) (rule Cons.IH)
  then show ?case by simp
qed

lemma process_files_replace:
  assumes "\<And>st. process_file py_int (snd f) st = process_file py_int (snd f') st"
  shows "process_files py_int (xs @ f # ys) st = process_files py_int (xs @ f' # ys) st"
proof (induction xs arbitrary: st)
  case Nil
  show ?case by (simp add: assms)
next
  case (Cons x xs)
  have "process_files py_int (xs @ f # ys) = process_files py_int (xs @ f' # ys)"
    by (rule ext) (rule Cons.IH)
  then show ?case by simp
qed

lemma csv_files_append: "csv_files (xs @ ys) = csv_files xs @ csv_files ys"
  by (simp add: csv_files_def)

lemma csv_files_Cons:
  "csv_files (f # fs) =
     (if prefix ''code_growth-'' (fst f) \<and> suffix ''.csv'' (fst f) then f # csv_files fs
      else csv_files fs)"
  by (simp add: csv_files_def)

text \<open>
  Claim C7.  A data row with fewer than 6 fields is skipped: processing it returns the
  accumulator as it was, without an exception, and a run over a directory in which some
  input file holds such a row, at any place among its data rows, gives the same result
  (the same output, or the same exception) as the run over the directory without that
  row.
\<close>

theorem short_row_skipped:
  assumes "length r < 6"
  shows "process_row py_int languages r cd = Inr cd \<and>
         main py_int (earlier @ (name, header # rows1 @ r # rows2) # later) =
         main py_int (earlier @ (name, header # rows1 @ rows2) # later)"
proof
  from assms show "process_row py_int languages r cd = Inr cd"
    by (simp add: process_row_def)
next
  let ?f = "(name, header # rows1 @ r # rows2)" and ?f' = "(name, header # rows1 @ rows2)"
  have pf: "process_file py_int (snd ?f) st = process_file py_int (snd ?f') st" for st
    by (cases st) (simp add: process_rows_skip[OF assms])
  show "main py_int (earlier @ ?f # later) = main py_int (earlier @ ?f' # later)"
  proof (cases "prefix ''code_growth-'' name \<and> suffix ''.csv'' name")
    case True
    then have l: "csv_files (earlier @ ?f # later) = csv_files earlier @ ?f # csv_files later"
      and r: "csv_files (earlier @ ?f' # later) = csv_files earlier @ ?f' # csv_files later"
      by (simp_all add: csv_files_append csv_files_Cons)
    have "process_files py_int (csv_files earlier @ ?f # csv_files later) ([], {}) =
          process_files py_int (csv_files earlier @ ?f' # csv_files later) ([], {})"
      by (rule process_files_replace) (rule pf)
    then show ?thesis
      by (simp add: main_def l r)
  next
    case False
    then have "csv_files (earlier @ ?f # later) = csv_files (earlier @ ?f' # later)"
      by (auto simp: csv_files_append csv_files_Cons)
    then show ?thesis
      by (simp add: main_def)
  qed
qed

text \<open>An instance: a row of 3 fields between two records.\<close>

theorem short_row_skipped_witness:
  "length [''x'', ''y'', ''z''] < (6::nat) \<and>
   main plain_decimal [(''code_growth-a.csv'',
          [[''repo_name'', ''commit_hash'', ''datetime'', ''author'', ''lines_of_code'', ''delta'', ''A''],
           [''a'', ''c1'', ''2025-01-01 10:00:00'', ''x'', ''10'', ''10'', ''10''],
           [''x'', ''y'', ''z''],
           [''a'', ''c2'', ''2025-01-02 10:00:00'', ''x'', ''12'', ''2'', ''12'']])] =
   Inr (Some [[S ''date'', S ''total_loc'', S ''A''],
              [S ''2024-11-01 00:00:00'', I 0, I 0],
              [S ''2025-01-01 10:00:00'', I 10, I 10],
              [S ''2025-01-02 10:00:00'', I 12, I 12]])"
proof -
  have short: "length [''x'', ''y'', ''z''] < (6::nat)" by simp
  have without:
    "main plain_decimal [(''code_growth-a.csv'',
          [[''repo_name'', ''commit_hash'', ''datetime'', ''author'', ''lines_of_code'', ''delta'', ''A''],
           [''a'', ''c1'', ''2025-01-01 10:00:00'', ''x'', ''10'', ''10'', ''10''],
           [''a'', ''c2'', ''2025-01-02 10:00:00'', ''x'', ''12'', ''2'', ''12'']])] =
     Inr (Some [[S ''date'', S ''total_loc'', S ''A''],
              [S ''2024-11-01 00:00:00'', I 0, I 0],
              [S ''2025-01-01 10:00:00'', I 10, I 10],
              [S ''2025-01-02 10:00:00'', I 12, I 12]])"
    by code_simp
  from short_row_skipped[OF short, of plain_decimal _ _ "[]" "''code_growth-a.csv''"
      "[''repo_name'', ''commit_hash'', ''datetime'', ''author'', ''lines_of_code'', ''delta'', ''A'']"
      "[[''a'', ''c1'', ''2025-01-01 10:00:00'', ''x'', ''10'', ''10'', ''10'']]"
      "[[''a'', ''c2'', ''2025-01-02 10:00:00'', ''x'', ''12'', ''2'', ''12'']]" "[]"]
  show ?thesis
    using short without by simp
qed

section \<open>The order of the input files\<close>

lemma all_adds_mset:
  assumes "mset fs' = mset fs"
  shows "all_adds py_int fs' d k = all_adds py_int fs d k"
proof -
  have "all_adds py_int xs d k = sum_mset (image_mset (\<lambda>f. file_adds py_int (snd f) d k) (mset xs))" for xs
    unfolding all_adds_def by (simp flip: sum_mset_sum_list)
  with assms show ?thesis by simp
qed

text \<open>
  Claim C8.  The output file is a function of the multiset of the input files: two
  directory listings with the same input files, in any order and with any other files
  beside them (the output of an earlier run among them), leave the same rows in
  \<^verbatim>\<open>code_growth_total.csv\<close>, or both leave none.
\<close>

theorem output_independent_of_listing_order:
  assumes "mset (csv_files listdir') = mset (csv_files listdir)"
  shows "written (main py_int listdir') = written (main py_int listdir)"
proof -
  let ?fs = "csv_files listdir" and ?fs' = "csv_files listdir'"
  from assms have sets: "set ?fs' = set ?fs" by (rule mset_eq_setD)
  have adds: "all_adds py_int ?fs' = all_adds py_int ?fs"
    by (intro ext) (rule all_adds_mset[OF assms])
  have ds: "all_dates ?fs' = all_dates ?fs" and ls: "all_langs ?fs' = all_langs ?fs"
    by (simp_all add: all_dates_def all_langs_def sets)
  have oks: "list_all (\<lambda>f. file_ok py_int (snd f)) ?fs' = list_all (\<lambda>f. file_ok py_int (snd f)) ?fs"
    by (simp add: list_all_iff sets)
  have empty: "?fs' = [] \<longleftrightarrow> ?fs = []"
    using sets by (metis set_empty)
  show ?thesis
  proof (cases "?fs = []")
    case True
    with empty show ?thesis by (simp add: main_empty)
  next
    case ne: False
    with empty have ne': "?fs' \<noteq> []" by simp
    show ?thesis
    proof (cases "list_all (\<lambda>f. file_ok py_int (snd f)) ?fs")
      case True
      with oks have ok': "list_all (\<lambda>f. file_ok py_int (snd f)) ?fs'" by simp
      show ?thesis
        by (simp add: main_ok[OF ne True] main_ok[OF ne' ok'] adds ds ls)
    next
      case False
      with oks have bad': "\<not> list_all (\<lambda>f. file_ok py_int (snd f)) ?fs'" by simp
      from main_bad[OF ne False] main_bad[OF ne' bad'] show ?thesis
        by (auto simp: written_def)
    qed
  qed
qed

text \<open>An instance: the two series in the other order, with the output of an earlier run
  in the directory.\<close>

theorem output_independent_of_listing_order_witness:
  "mset (csv_files [series_B, (OUTPUT_CSV, [[''date'', ''total_loc'']]), series_A]) =
   mset (csv_files [series_A, series_B]) \<and>
   written (main plain_decimal [series_B, (OUTPUT_CSV, [[''date'', ''total_loc'']]), series_A]) =
   written (main plain_decimal [series_A, series_B])"
proof -
  have l: "csv_files [series_B, (OUTPUT_CSV, [[''date'', ''total_loc'']]), series_A] =
           [series_B, series_A]"
    by code_simp
  have r: "csv_files [series_A, series_B] = [series_A, series_B]"
    by code_simp
  have same: "mset (csv_files [series_B, (OUTPUT_CSV, [[''date'', ''total_loc'']]), series_A]) =
              mset (csv_files [series_A, series_B])"
    by (simp add: l r)
  from output_independent_of_listing_order[OF same] same show ?thesis
    by blast
qed

section \<open>What a successful run writes\<close>

lemma finite_all_dates: "finite (all_dates fs)"
  by (auto simp: all_dates_def file_dates_def rows_dates_def row_dates_def split: list.splits)

lemma finite_all_langs: "finite (all_langs fs)"
  by (simp add: all_langs_def)

lemma main_SomeD:
  assumes "main py_int listdir = Inr (Some out)"
  shows "csv_files listdir \<noteq> [] \<and> list_all (\<lambda>f. file_ok py_int (snd f)) (csv_files listdir) \<and>
         out = rows_of (all_adds py_int (csv_files listdir)) (all_dates (csv_files listdir))
                 (all_langs (csv_files listdir))"
proof -
  have ne: "csv_files listdir \<noteq> []"
    using assms by (auto simp: main_empty)
  have ok: "list_all (\<lambda>f. file_ok py_int (snd f)) (csv_files listdir)"
  proof (rule ccontr)
    assume "\<not> ?thesis"
    from main_bad[OF ne this] assms show False by auto
  qed
  from main_ok[OF ne ok] assms ne ok show ?thesis by simp
qed

lemma rows_of_cong:
  assumes "finite D" and "D - {INITIAL_DATE} = D' - {INITIAL_DATE}"
    and "\<And>d k. d \<noteq> INITIAL_DATE \<Longrightarrow> a d k = a' d k"
  shows "rows_of a D A = rows_of a' D' A"
proof -
  have "finite (D - {INITIAL_DATE})" using assms(1) by simp
  then have "\<forall>d\<in>set (sorted_list_of_set (D - {INITIAL_DATE})). d \<noteq> INITIAL_DATE"
    by simp
  then have "map (\<lambda>d. [S d, I (a d ''total_loc'')] @ map (\<lambda>l. I (a d l)) (sorted_list_of_set A))
               (sorted_list_of_set (D - {INITIAL_DATE})) =
             map (\<lambda>d. [S d, I (a' d ''total_loc'')] @ map (\<lambda>l. I (a' d l)) (sorted_list_of_set A))
               (sorted_list_of_set (D - {INITIAL_DATE}))"
    by (intro map_cong refl) (simp add: assms(3))
  then show ?thesis
    by (simp add: rows_of_def Let_def flip: assms(2))
qed

lemma rows_of_dates:
  "finite D \<Longrightarrow> map date_of (drop 2 (rows_of a D A)) = sorted_list_of_set (D - {INITIAL_DATE})"
  by (simp add: rows_of_def Let_def date_of_def comp_def)

lemma file_dates_iff:
  "d \<in> file_dates rows \<longleftrightarrow> (\<exists>r\<in>set (tl rows). 6 \<le> length r \<and> r ! 2 = d)"
proof (cases rows)
  case Nil
  then show ?thesis by (simp add: file_dates_def)
next
  case (Cons header rows')
  have rd: "row_dates r = (if 6 \<le> length r then {r ! 2} else {})" for r
    by (auto simp: row_dates_def)
  show ?thesis
    by (auto simp: Cons file_dates_def rows_dates_def rd split: if_splits)
qed

lemma all_dates_iff:
  "d \<in> all_dates fs \<longleftrightarrow>
     (\<exists>f\<in>set fs. \<exists>r\<in>set (tl (snd f)). 6 \<le> length r \<and> r ! 2 = d)"
  by (simp add: all_dates_def file_dates_iff)

section \<open>Exceptions of a row\<close>

text \<open>
  Claim C10, as amended.  Processing a row of at least 6 fields never reads out of range,
  whatever the length of the row and of the header; the only exception it can raise is
  \<^verbatim>\<open>ValueError\<close>, and it raises it exactly when one of the fields it converts
  (\<^verbatim>\<open>lines_of_code\<close>, \<^verbatim>\<open>delta\<close>, a language field within the row) is not empty and
  \<^verbatim>\<open>int\<close> rejects it.  Otherwise it completes and adds \<open>row_adds\<close> to the accumulator:
  an empty \<^verbatim>\<open>lines_of_code\<close> counts as 0, and so does a language field that is empty or
  beyond the end of the row.  This holds whatever strings \<^verbatim>\<open>int\<close> accepts.
\<close>

theorem process_row_raises_only_value_error:
  assumes "6 \<le> length row"
  shows "process_row py_int languages row cd \<noteq> Inl IndexError \<and>
         (if row_ok py_int languages row
          then \<exists>cd'. process_row py_int languages row cd = Inr cd' \<and>
                 (\<forall>d k. acc cd' d k = acc cd d k + row_adds py_int languages row d k)
          else process_row py_int languages row cd = Inl ValueError)"
proof (cases "row_ok py_int languages row")
  case True
  from process_row_ok[OF True, where cd = cd] obtain cd' where
    "process_row py_int languages row cd = Inr cd'" and
    "steps cd cd' (row_dates row) (row_adds py_int languages row)"
    by blast
  with True show ?thesis by (auto simp: steps_def)
next
  case False
  then show ?thesis by (simp add: process_row_bad)
qed

text \<open>An instance: a row shorter than its header, with an empty \<^verbatim>\<open>lines_of_code\<close> and
  an empty language field.\<close>

theorem process_row_raises_only_value_error_witness:
  "(6::nat) \<le> length [''a'', ''1a2b3c4'', ''2025-01-01 10:00:00'', ''ann'', '''', ''7'', ''3'', '''']
   \<and> process_row plain_decimal [''A'', ''B'', ''C'']
        [''a'', ''1a2b3c4'', ''2025-01-01 10:00:00'', ''ann'', '''', ''7'', ''3'', ''''] [] =
      Inr [(''2025-01-01 10:00:00'', [(''total_loc'', 0), (''A'', 3)])]
   \<and> process_row plain_decimal [''A'', ''B'', ''C'']
        [''a'', ''1a2b3c4'', ''2025-01-01 10:00:00'', ''ann'', '''', ''7'', ''3'', ''''] [] \<noteq>
      Inl IndexError"
proof -
  have len: "(6::nat) \<le> length [''a'', ''1a2b3c4'', ''2025-01-01 10:00:00'', ''ann'', '''', ''7'', ''3'', '''']"
    by simp
  have run: "process_row plain_decimal [''A'', ''B'', ''C'']
        [''a'', ''1a2b3c4'', ''2025-01-01 10:00:00'', ''ann'', '''', ''7'', ''3'', ''''] [] =
      Inr [(''2025-01-01 10:00:00'', [(''total_loc'', 0), (''A'', 3)])]"
    by code_simp
  from process_row_raises_only_value_error[OF len, where py_int = plain_decimal
      and languages = "[''A'', ''B'', ''C'']" and cd = "[]"]
  have "process_row plain_decimal [''A'', ''B'', ''C'']
        [''a'', ''1a2b3c4'', ''2025-01-01 10:00:00'', ''ann'', '''', ''7'', ''3'', ''''] [] \<noteq>
      Inl IndexError"
    by blast
  with len run show ?thesis by blast
qed

text \<open>Claim C10 as stated fails: a row of 7 fields whose \<^verbatim>\<open>lines_of_code\<close> is
  \<^verbatim>\<open>n/a\<close> raises \<^verbatim>\<open>ValueError\<close>, so the processing of a row is not total.\<close>

theorem process_row_not_total:
  "process_row plain_decimal [''A''] [''a'', ''1a2b3c4'', ''2025-01-01 10:00:00'', ''ann'', ''n/a'', ''0'', ''5''] [] =
     Inl ValueError"
  by code_simp

section \<open>No input files\<close>

lemma process_files_stop:
  "\<forall>f\<in>set files. file_ok py_int (snd f) \<or> snd f = [] \<Longrightarrow> \<exists>f\<in>set files. snd f = [] \<Longrightarrow>
   process_files py_int files (cd, A) = Inl StopIteration"
proof (induction files arbitrary: cd A)
  case Nil
  then show ?case by simp
next
  case (Cons f files)
  show ?case
  proof (cases "snd f = []")
    case True
    then show ?thesis by (simp add: bindE_Inl)
  next
    case False
    with Cons.prems have ok: "file_ok py_int (snd f)"
      and rest: "\<forall>f\<in>set files. file_ok py_int (snd f) \<or> snd f = []"
      and stop: "\<exists>f\<in>set files. snd f = []"
      by auto
    from process_file_ok[OF ok, where cd = cd and A = A] obtain cd1 where
      "process_file py_int (snd f) (cd, A) = Inr (cd1, A \<union> set (file_languages (snd f)))"
      by blast
    with Cons.IH[OF rest stop] show ?thesis
      by (simp add: bindE_Inr)
  qed
qed

text \<open>
  Claim C6, as amended.  When the directory holds no input file, the script returns
  without writing an output.  When it holds input files and none of them has a language
  column or a record (a data row of 6 or more fields), then, if each of them has a header
  row, the output is the header \<^verbatim>\<open>date, total_loc\<close> and exactly one data row, the anchor
  row with the value 0; and if one of them is empty, without a header row, the run ends
  with \<^verbatim>\<open>StopIteration\<close> and writes nothing.
\<close>

theorem no_input_files_no_output:
  "(csv_files listdir = [] \<longrightarrow> main py_int listdir = Inr None) \<and>
   (csv_files listdir \<noteq> [] \<and>
    (\<forall>f\<in>set (csv_files listdir).
        file_languages (snd f) = [] \<and> (\<forall>r\<in>set (tl (snd f)). length r < 6)) \<longrightarrow>
    main py_int listdir =
      (if \<forall>f\<in>set (csv_files listdir). snd f \<noteq> []
       then Inr (Some [[S ''date'', S ''total_loc''], [S INITIAL_DATE, I 0]])
       else Inl StopIteration))"
proof (intro conjI impI)
  assume "csv_files listdir = []"
  then show "main py_int listdir = Inr None" by (rule main_empty)
next
  let ?fs = "csv_files listdir"
  assume a: "?fs \<noteq> [] \<and>
    (\<forall>f\<in>set ?fs. file_languages (snd f) = [] \<and> (\<forall>r\<in>set (tl (snd f)). length r < 6))"
  then have ne: "?fs \<noteq> []" by simp
  have each: "\<forall>f\<in>set ?fs. file_ok py_int (snd f) \<or> snd f = []"
    using a by (auto simp: file_ok_def list_all_iff row_ok_def split: list.splits)
  show "main py_int listdir =
      (if \<forall>f\<in>set ?fs. snd f \<noteq> []
       then Inr (Some [[S ''date'', S ''total_loc''], [S INITIAL_DATE, I 0]])
       else Inl StopIteration)"
  proof (cases "\<forall>f\<in>set ?fs. snd f \<noteq> []")
    case True
    with each have ok: "list_all (\<lambda>f. file_ok py_int (snd f)) ?fs"
      by (auto simp: list_all_iff)
    have ls: "all_langs ?fs = {}"
      using a by (simp add: all_langs_def)
    have "d \<notin> all_dates ?fs" for d
    proof
      assume "d \<in> all_dates ?fs"
      then obtain f r where f: "f \<in> set ?fs" and r: "r \<in> set (tl (snd f))" and "6 \<le> length r"
        by (auto simp: all_dates_iff)
      moreover from a f r have "length r < 6" by blast
      ultimately show False by simp
    qed
    then have ds: "all_dates ?fs = {}" by blast
    from True show ?thesis
      by (simp add: main_ok[OF ne ok] ls ds rows_of_def)
  next
    case False
    then have "\<exists>f\<in>set ?fs. snd f = []" by simp
    from process_files_stop[OF each this, where cd = "[]" and A = "{}"] False ne show ?thesis
      by (simp add: main_def bindE_Inl)
  qed
qed

text \<open>Instances: a directory with the combined file and an earlier output only; a
  directory with one input file that has a header without language columns and a row of 3
  fields; and a directory whose second input file is empty.\<close>

theorem no_input_files_no_output_witness:
  "main plain_decimal
     [(''code_growth.csv'', [series_header [''A'']]), (OUTPUT_CSV, [[''date'', ''total_loc'']])] =
     Inr None \<and>
   main plain_decimal [(''code_growth-a.csv'', [series_header [], [''x'', ''y'', ''z'']])] =
     Inr (Some [[S ''date'', S ''total_loc''], [S INITIAL_DATE, I 0]]) \<and>
   main plain_decimal
     [(''code_growth-a.csv'', [series_header []]), (''code_growth-b.csv'', [])] =
     Inl StopIteration"
proof -
  let ?none = "[(''code_growth.csv'', [series_header [''A'']]), (OUTPUT_CSV, [[''date'', ''total_loc'']])]"
  let ?one = "[(''code_growth-a.csv'', [series_header [], [''x'', ''y'', ''z'']])]"
  let ?two = "[(''code_growth-a.csv'', [series_header []]), (''code_growth-b.csv'', [])]"
  have none: "csv_files ?none = []"
    by code_simp
  have one: "csv_files ?one \<noteq> [] \<and>
    (\<forall>f\<in>set (csv_files ?one).
        file_languages (snd f) = [] \<and> (\<forall>r\<in>set (tl (snd f)). length r < 6))"
    by code_simp
  have one_headers: "\<forall>f\<in>set (csv_files ?one). snd f \<noteq> []"
    by code_simp
  have two: "csv_files ?two \<noteq> [] \<and>
    (\<forall>f\<in>set (csv_files ?two).
        file_languages (snd f) = [] \<and> (\<forall>r\<in>set (tl (snd f)). length r < 6))"
    by code_simp
  have two_headers: "\<not> (\<forall>f\<in>set (csv_files ?two). snd f \<noteq> [])"
    by code_simp
  from no_input_files_no_output[where py_int = plain_decimal and listdir = ?none] none
  have first: "main plain_decimal ?none = Inr None"
    by blast
  from no_input_files_no_output[where py_int = plain_decimal and listdir = ?one] one
  have "main plain_decimal ?one =
      (if \<forall>f\<in>set (csv_files ?one). snd f \<noteq> []
       then Inr (Some [[S ''date'', S ''total_loc''], [S INITIAL_DATE, I 0]])
       else Inl StopIteration)"
    by blast
  with one_headers have second:
    "main plain_decimal ?one = Inr (Some [[S ''date'', S ''total_loc''], [S INITIAL_DATE, I 0]])"
    by simp
  from no_input_files_no_output[where py_int = plain_decimal and listdir = ?two] two
  have "main plain_decimal ?two =
      (if \<forall>f\<in>set (csv_files ?two). snd f \<noteq> []
       then Inr (Some [[S ''date'', S ''total_loc''], [S INITIAL_DATE, I 0]])
       else Inl StopIteration)"
    by blast
  with two_headers have third: "main plain_decimal ?two = Inl StopIteration"
    by simp
  from first second third show ?thesis by blast
qed

text \<open>Claim C6 as stated fails: on the empty directory nothing is written, so the
  anchor-only output is not produced.\<close>

theorem no_input_files_counterexample:
  "main plain_decimal [] = Inr None \<and>
   written (main plain_decimal []) \<noteq> Some [[S ''date'', S ''total_loc''], [S INITIAL_DATE, I 0]]"
  by (simp add: main_def csv_files_def written_def)

section \<open>The anchor row\<close>

lemma csv_files_without_anchor:
  "csv_files (map without_anchor_records listdir) = map without_anchor_records (csv_files listdir)"
  by (simp add: csv_files_def filter_map comp_def without_anchor_records_def)

lemma file_ok_without_anchor:
  "file_ok py_int (snd f) \<Longrightarrow> file_ok py_int (snd (without_anchor_records f))"
  by (auto simp: file_ok_def without_anchor_records_def list_all_iff split: list.splits)

lemma file_languages_without_anchor:
  "file_languages (snd (without_anchor_records f)) = file_languages (snd f)"
  by (simp add: file_languages_def without_anchor_records_def split: list.splits)

lemma file_adds_without_anchor:
  assumes "d \<noteq> INITIAL_DATE"
  shows "file_adds py_int (snd (without_anchor_records f)) d k = file_adds py_int (snd f) d k"
proof (cases "snd f")
  case Nil
  then show ?thesis by (simp add: file_adds_def without_anchor_records_def)
next
  case (Cons header rows)
  have "(\<Sum>r\<leftarrow>filter (\<lambda>r. \<not> (6 \<le> length r \<and> r ! 2 = INITIAL_DATE)) rows.
            row_adds py_int (drop 6 header) r d k) =
        (\<Sum>r\<leftarrow>rows. row_adds py_int (drop 6 header) r d k)"
    using assms by (intro sum_list_map_filter) (auto simp: row_adds_def)
  then show ?thesis
    by (simp add: Cons file_adds_def without_anchor_records_def rows_adds_def)
qed

lemma file_dates_without_anchor:
  "file_dates (snd (without_anchor_records f)) - {INITIAL_DATE} = file_dates (snd f) - {INITIAL_DATE}"
  by (auto simp: file_dates_def without_anchor_records_def rows_dates_def row_dates_def
           split: list.splits if_splits)

lemma all_adds_without_anchor:
  "d \<noteq> INITIAL_DATE \<Longrightarrow> all_adds py_int (map without_anchor_records fs) d k = all_adds py_int fs d k"
  by (simp add: all_adds_def comp_def file_adds_without_anchor)

lemma all_dates_without_anchor:
  "all_dates (map without_anchor_records fs) - {INITIAL_DATE} = all_dates fs - {INITIAL_DATE}"
proof -
  have "all_dates (map without_anchor_records fs) - {INITIAL_DATE} =
        (\<Union>f\<in>set fs. (file_dates (snd (without_anchor_records f)) - {INITIAL_DATE}))"
    by (auto simp: all_dates_def)
  also have "\<dots> = (\<Union>f\<in>set fs. (file_dates (snd f) - {INITIAL_DATE}))"
    by (simp only: file_dates_without_anchor)
  also have "\<dots> = all_dates fs - {INITIAL_DATE}"
    by (auto simp: all_dates_def)
  finally show ?thesis .
qed

lemma all_langs_without_anchor:
  "all_langs (map without_anchor_records fs) = all_langs fs"
  by (simp add: all_langs_def file_languages_without_anchor)

text \<open>
  Claim C2, as amended.  Whenever the script writes an output, its first data row is the
  anchor row, the date \<^verbatim>\<open>2024-11-01 00:00:00\<close> followed by 0 in every column, no later
  row has that date, and the records of the input at that date contribute nothing: the
  run over the input without them writes the same output.
\<close>

theorem anchor_row_first_and_canonical:
  assumes "main py_int listdir = Inr (Some out)"
  shows "(\<exists>header rest.
            out = header # (S INITIAL_DATE # replicate (length header - 1) (I 0)) # rest \<and>
            INITIAL_DATE \<notin> set (map date_of rest)) \<and>
         main py_int (map without_anchor_records listdir) = Inr (Some out)"
proof
  let ?fs = "csv_files listdir"
  from main_SomeD[OF assms] have ne: "?fs \<noteq> []"
    and ok: "list_all (\<lambda>f. file_ok py_int (snd f)) ?fs"
    and out: "out = rows_of (all_adds py_int ?fs) (all_dates ?fs) (all_langs ?fs)"
    by simp_all
  let ?ls = "sorted_list_of_set (all_langs ?fs)"
  let ?header = "[S ''date'', S ''total_loc''] @ map S ?ls"
  have shape: "out = ?header # (S INITIAL_DATE # replicate (length ?header - 1) (I 0)) # drop 2 out"
    by (simp add: out rows_of_def Let_def)
  have "map date_of (drop 2 out) = sorted_list_of_set (all_dates ?fs - {INITIAL_DATE})"
    unfolding out by (rule rows_of_dates) (rule finite_all_dates)
  then have "INITIAL_DATE \<notin> set (map date_of (drop 2 out))"
    by (simp add: finite_all_dates)
  with shape show "\<exists>header rest.
            out = header # (S INITIAL_DATE # replicate (length header - 1) (I 0)) # rest \<and>
            INITIAL_DATE \<notin> set (map date_of rest)"
    by blast
  let ?gs = "csv_files (map without_anchor_records listdir)"
  have gs: "?gs = map without_anchor_records ?fs" by (rule csv_files_without_anchor)
  have ne': "?gs \<noteq> []" using ne by (simp add: gs)
  have ok': "list_all (\<lambda>f. file_ok py_int (snd f)) ?gs"
    using ok by (simp add: gs list_all_iff file_ok_without_anchor)
  have "rows_of (all_adds py_int ?fs) (all_dates ?fs) (all_langs ?fs) =
        rows_of (all_adds py_int ?gs) (all_dates ?gs) (all_langs ?fs)"
    by (rule rows_of_cong)
       (simp_all add: gs finite_all_dates all_dates_without_anchor all_adds_without_anchor)
  then show "main py_int (map without_anchor_records listdir) = Inr (Some out)"
    by (simp add: main_ok[OF ne' ok'] out) (simp add: gs all_langs_without_anchor)
qed

text \<open>An instance: an input with a record of 50 lines at the anchor date.\<close>

theorem anchor_row_first_and_canonical_witness:
  "main plain_decimal [series_A, series_at_anchor] =
     Inr (Some [[S ''date'', S ''total_loc'', S ''A''],
                [S ''2024-11-01 00:00:00'', I 0, I 0],
                [S ''2025-01-01 10:00:00'', I 100, I 100],
                [S ''2025-02-01 09:30:00'', I 70, I 70]]) \<and>
   main plain_decimal (map without_anchor_records [series_A, series_at_anchor]) =
     Inr (Some [[S ''date'', S ''total_loc'', S ''A''],
                [S ''2024-11-01 00:00:00'', I 0, I 0],
                [S ''2025-01-01 10:00:00'', I 100, I 100],
                [S ''2025-02-01 09:30:00'', I 70, I 70]])"
proof -
  have run: "main plain_decimal [series_A, series_at_anchor] =
     Inr (Some [[S ''date'', S ''total_loc'', S ''A''],
                [S ''2024-11-01 00:00:00'', I 0, I 0],
                [S ''2025-01-01 10:00:00'', I 100, I 100],
                [S ''2025-02-01 09:30:00'', I 70, I 70]])"
    by code_simp
  from anchor_row_first_and_canonical[OF run] run show ?thesis
    by blast
qed

text \<open>Claim C2 as stated fails for the input without any series: a directory without
  input files gets no output, hence no anchor row.\<close>

theorem anchor_row_absent_without_input:
  "written (main plain_decimal [(''code_growth.csv'', [series_header [''A'']]), (''README.md'', [])]) = None"
  by code_simp

section \<open>The order of the dates\<close>

text \<open>
  Claim C4, as amended.  In every output the dates of the rows after the anchor row are
  strictly increasing and differ from the anchor date.  With the anchor row included the
  dates are strictly increasing when no record of the input is dated before the anchor
  date.
\<close>

theorem dates_after_anchor_strictly_increasing:
  assumes "main py_int listdir = Inr (Some out)"
  shows "sorted_wrt (<) (map date_of (drop 2 out)) \<and>
         INITIAL_DATE \<notin> set (map date_of (drop 2 out)) \<and>
         ((\<forall>f\<in>set (csv_files listdir). \<forall>r\<in>set (tl (snd f)). 6 \<le> length r \<longrightarrow> INITIAL_DATE \<le> r ! 2) \<longrightarrow>
          sorted_wrt (<) (map date_of (tl out)))"
proof -
  let ?fs = "csv_files listdir"
  let ?D = "all_dates ?fs - {INITIAL_DATE}"
  from main_SomeD[OF assms]
  have out: "out = rows_of (all_adds py_int ?fs) (all_dates ?fs) (all_langs ?fs)"
    by simp
  have after: "map date_of (drop 2 out) = sorted_list_of_set ?D"
    unfolding out by (rule rows_of_dates) (rule finite_all_dates)
  have fin: "finite ?D" by (simp add: finite_all_dates)
  have whole: "map date_of (tl out) = INITIAL_DATE # sorted_list_of_set ?D"
    using after by (simp add: out rows_of_def Let_def date_of_def)
  have strict: "sorted_wrt (<) (sorted_list_of_set ?D)"
    by (rule strict_sorted_list_of_set)
  have "sorted_wrt (<) (map date_of (tl out))"
    if late: "\<forall>f\<in>set ?fs. \<forall>r\<in>set (tl (snd f)). 6 \<le> length r \<longrightarrow> INITIAL_DATE \<le> r ! 2"
  proof -
    have "INITIAL_DATE < d" if "d \<in> ?D" for d
    proof -
      from that obtain f r where "f \<in> set ?fs" "r \<in> set (tl (snd f))" "6 \<le> length r" "r ! 2 = d"
        by (auto simp: all_dates_iff)
      with late have "INITIAL_DATE \<le> d" by blast
      with that show ?thesis by auto
    qed
    with strict fin show ?thesis by (simp add: whole)
  qed
  with strict fin show ?thesis by (simp add: after)
qed

text \<open>An instance: two series whose records are not older than the anchor date.\<close>

theorem dates_after_anchor_strictly_increasing_witness:
  "main plain_decimal [series_A, series_at_anchor] =
     Inr (Some [[S ''date'', S ''total_loc'', S ''A''],
                [S ''2024-11-01 00:00:00'', I 0, I 0],
                [S ''2025-01-01 10:00:00'', I 100, I 100],
                [S ''2025-02-01 09:30:00'', I 70, I 70]]) \<and>
   sorted_wrt (<) (map date_of (tl [[S ''date'', S ''total_loc'', S ''A''],
                [S ''2024-11-01 00:00:00'', I 0, I 0],
                [S ''2025-01-01 10:00:00'', I 100, I 100],
                [S ''2025-02-01 09:30:00'', I 70, I 70]]))"
proof -
  have run: "main plain_decimal [series_A, series_at_anchor] =
     Inr (Some [[S ''date'', S ''total_loc'', S ''A''],
                [S ''2024-11-01 00:00:00'', I 0, I 0],
                [S ''2025-01-01 10:00:00'', I 100, I 100],
                [S ''2025-02-01 09:30:00'', I 70, I 70]])"
    by code_simp
  have late: "\<forall>f\<in>set (csv_files [series_A, series_at_anchor]).
                \<forall>r\<in>set (tl (snd f)). 6 \<le> length r \<longrightarrow> INITIAL_DATE \<le> r ! 2"
    by code_simp
  from dates_after_anchor_strictly_increasing[OF run] late run show ?thesis
    by blast
qed

text \<open>Claim C4 as stated fails: a commit of 2023 is written after the anchor row, so
  with the anchor row included the dates are not increasing.\<close>

theorem anchor_before_older_commit:
  "main plain_decimal [series_early] =
     Inr (Some [[S ''date'', S ''total_loc'', S ''A''],
                [S ''2024-11-01 00:00:00'', I 0, I 0],
                [S ''2023-05-01 12:00:00'', I 10, I 10]]) \<and>
   \<not> sorted_wrt (<) (map date_of (tl [[S ''date'', S ''total_loc'', S ''A''],
                [S ''2024-11-01 00:00:00'', I 0, I 0],
                [S ''2023-05-01 12:00:00'', I 10, I 10]]))"
  by code_simp

section \<open>The total of a row and its languages\<close>

lemma lang_adds_notin: "k \<notin> set langs \<Longrightarrow> lang_adds py_int row i langs k = 0"
  by (induction langs arbitrary: i) auto

lemma sum_lang_adds:
  assumes "finite A"
  shows "set langs \<subseteq> A \<Longrightarrow> length langs + i + 6 \<le> length row \<Longrightarrow>
         (\<Sum>k\<in>A. lang_adds py_int row i langs k) =
         sum_list (map the_int (map (field_val py_int) (take (length langs) (drop (i + 6) row))))"
proof (induction langs arbitrary: i)
  case Nil
  then show ?case by simp
next
  case (Cons l ls)
  from Cons.prems have l: "l \<in> A" and ls: "set ls \<subseteq> A"
    and len: "length ls + Suc i + 6 \<le> length row" and here: "i + 6 < length row"
    by simp_all
  have "drop (i + 6) row = row ! (i + 6) # drop (Suc (i + 6)) row"
    using here by (rule Cons_nth_drop_Suc[symmetric])
  then have split: "drop (i + 6) row = row ! (i + 6) # drop (Suc i + 6) row"
    by simp
  have "(\<Sum>k\<in>A. lang_adds py_int row i (l # ls) k) =
        (\<Sum>k\<in>A. if l = k then the_int (lang_field py_int row i) else 0) +
        (\<Sum>k\<in>A. lang_adds py_int row (Suc i) ls k)"
    by (simp add: sum.distrib)
  also have "(\<Sum>k\<in>A. if l = k then the_int (lang_field py_int row i) else 0) = the_int (lang_field py_int row i)"
    using assms l by simp
  also have "lang_field py_int row i = field_val py_int (row ! (i + 6))"
    using here by (simp add: lang_field_def)
  also note Cons.IH[OF ls len]
  finally show ?case
    by (simp add: split)
qed

lemma row_sum_languages:
  assumes inv: "row_invariant py_int langs r" and fin: "finite A" and sub: "set langs \<subseteq> A"
    and nocoll: "''total_loc'' \<notin> A"
  shows "(\<Sum>k\<in>A. row_adds py_int langs r d k) = row_adds py_int langs r d ''total_loc''"
proof (cases "length r < 6 \<or> r ! 2 \<noteq> d")
  case True
  then show ?thesis by (simp add: row_adds_def)
next
  case False
  from inv have len: "length langs + 0 + 6 \<le> length r"
    and loc: "field_val py_int (r ! 4) =
                Some (sum_list (map the_int (map (field_val py_int) (take (length langs) (drop 6 r)))))"
    by (simp_all add: row_invariant_def Let_def)
  have "(\<Sum>k\<in>A. row_adds py_int langs r d k) = (\<Sum>k\<in>A. lang_adds py_int r 0 langs k)"
    using False nocoll by (intro sum.cong refl) (auto simp: row_adds_def)
  also have "\<dots> = sum_list (map the_int (map (field_val py_int) (take (length langs) (drop 6 r))))"
    using sum_lang_adds[OF fin sub len] by simp
  also have "\<dots> = row_adds py_int langs r d ''total_loc''"
  proof -
    from nocoll sub have "''total_loc'' \<notin> set langs" by blast
    then have "lang_adds py_int r 0 langs ''total_loc'' = 0" by (rule lang_adds_notin)
    with False show ?thesis by (simp add: row_adds_def loc the_int_def)
  qed
  finally show ?thesis .
qed

lemma rows_sum_languages:
  assumes fin: "finite A" and sub: "set langs \<subseteq> A" and nocoll: "''total_loc'' \<notin> A"
  shows "(\<forall>r\<in>set rows. row_invariant py_int langs r) \<Longrightarrow>
         (\<Sum>k\<in>A. rows_adds py_int langs rows d k) = rows_adds py_int langs rows d ''total_loc''"
proof (induction rows)
  case Nil
  then show ?case by (simp add: rows_adds_def)
next
  case (Cons r rows)
  then have "(\<Sum>k\<in>A. rows_adds py_int langs rows d k) = rows_adds py_int langs rows d ''total_loc''"
    and "row_invariant py_int langs r"
    by simp_all
  with row_sum_languages[OF _ fin sub nocoll, where r = r and d = d] show ?case
    by (simp add: rows_adds_def sum.distrib)
qed

lemma file_sum_languages:
  assumes fin: "finite A" and sub: "set (file_languages rows) \<subseteq> A" and nocoll: "''total_loc'' \<notin> A"
    and inv: "\<forall>r\<in>set (tl rows). row_invariant py_int (file_languages rows) r"
  shows "(\<Sum>k\<in>A. file_adds py_int rows d k) = file_adds py_int rows d ''total_loc''"
proof (cases rows)
  case Nil
  then show ?thesis by (simp add: file_adds_def)
next
  case (Cons header rows')
  with sub inv have "set (drop 6 header) \<subseteq> A" "\<forall>r\<in>set rows'. row_invariant py_int (drop 6 header) r"
    by (simp_all add: file_languages_def)
  from rows_sum_languages[OF fin this(1) nocoll this(2)] show ?thesis
    by (simp add: Cons file_adds_def)
qed

lemma all_sum_languages:
  assumes fin: "finite A" and nocoll: "''total_loc'' \<notin> A"
  shows "(\<forall>f\<in>set fs. set (file_languages (snd f)) \<subseteq> A \<and>
                      (\<forall>r\<in>set (tl (snd f)). row_invariant py_int (file_languages (snd f)) r)) \<Longrightarrow>
         (\<Sum>k\<in>A. all_adds py_int fs d k) = all_adds py_int fs d ''total_loc''"
proof (induction fs)
  case Nil
  then show ?case by (simp add: all_adds_def)
next
  case (Cons f fs)
  then have rest: "(\<Sum>k\<in>A. all_adds py_int fs d k) = all_adds py_int fs d ''total_loc''"
    and sub: "set (file_languages (snd f)) \<subseteq> A"
    and inv: "\<forall>r\<in>set (tl (snd f)). row_invariant py_int (file_languages (snd f)) r"
    by simp_all
  from file_sum_languages[OF fin sub nocoll inv, where d = d] rest show ?case
    by (simp add: all_adds_def sum.distrib)
qed

text \<open>
  Claim C1, as amended.  When every data row of every input file satisfies the per-record
  invariant and no header has a language column named \<^verbatim>\<open>total_loc\<close>, every data row of
  the output (the anchor row included) is a date, a total and one integer per language,
  and the total is the sum of the language values.
\<close>

theorem total_is_sum_of_languages:
  assumes run: "main py_int listdir = Inr (Some out)"
    and inv: "\<forall>f\<in>set (csv_files listdir). \<forall>r\<in>set (tl (snd f)).
                row_invariant py_int (file_languages (snd f)) r"
    and nocoll: "\<forall>f\<in>set (csv_files listdir). ''total_loc'' \<notin> set (file_languages (snd f))"
  shows "\<forall>r\<in>set (tl out). \<exists>d t vs. r = S d # I t # map I vs \<and> t = sum_list vs"
proof -
  let ?fs = "csv_files listdir"
  let ?A = "all_langs ?fs"
  let ?ls = "sorted_list_of_set ?A"
  let ?a = "all_adds py_int ?fs"
  from main_SomeD[OF run]
  have out: "out = rows_of ?a (all_dates ?fs) ?A"
    by simp
  have fin: "finite ?A" by (rule finite_all_langs)
  have nc: "''total_loc'' \<notin> ?A"
    using nocoll by (simp add: all_langs_def)
  have each: "\<forall>f\<in>set ?fs. set (file_languages (snd f)) \<subseteq> ?A \<and>
                (\<forall>r\<in>set (tl (snd f)). row_invariant py_int (file_languages (snd f)) r)"
    using inv by (auto simp: all_langs_def)
  have total: "sum_list (map (?a d) ?ls) = ?a d ''total_loc''" for d
  proof -
    have "sum_list (map (?a d) ?ls) = (\<Sum>k\<in>set ?ls. ?a d k)"
      by (rule sum_list_distinct_conv_sum_set) simp
    also have "\<dots> = (\<Sum>k\<in>?A. ?a d k)"
      using fin by simp
    also have "\<dots> = ?a d ''total_loc''"
      by (rule all_sum_languages[OF fin nc each])
    finally show ?thesis .
  qed
  show ?thesis
  proof
    fix r
    assume "r \<in> set (tl out)"
    then consider "r = [S INITIAL_DATE, I 0] @ replicate (length ?ls) (I 0)"
      | d where "r = [S d, I (?a d ''total_loc'')] @ map (\<lambda>l. I (?a d l)) ?ls"
      by (auto simp: out rows_of_def Let_def)
    then show "\<exists>d t vs. r = S d # I t # map I vs \<and> t = sum_list vs"
    proof cases
      case 1
      then have "r = S INITIAL_DATE # I 0 # map I (replicate (length ?ls) 0) \<and>
                 (0::int) = sum_list (replicate (length ?ls) 0)"
        by (simp add: sum_list_replicate)
      then show ?thesis by blast
    next
      case 2
      then have "r = S d # I (?a d ''total_loc'') # map I (map (?a d) ?ls) \<and>
                 ?a d ''total_loc'' = sum_list (map (?a d) ?ls)"
        by (simp add: total comp_def)
      then show ?thesis by blast
    qed
  qed
qed

text \<open>An instance: the two series of the summation example.\<close>

theorem total_is_sum_of_languages_witness:
  "main plain_decimal [series_A, series_B] =
     Inr (Some [[S ''date'', S ''total_loc'', S ''A'', S ''B''],
                [S ''2024-11-01 00:00:00'', I 0, I 0, I 0],
                [S ''2025-01-01 10:00:00'', I 200, I 100, I 100]]) \<and>
   (\<exists>d t vs. [S ''2025-01-01 10:00:00'', I 200, I 100, I 100] = S d # I t # map I vs \<and>
              t = sum_list vs)"
proof -
  have run: "main plain_decimal [series_A, series_B] =
     Inr (Some [[S ''date'', S ''total_loc'', S ''A'', S ''B''],
                [S ''2024-11-01 00:00:00'', I 0, I 0, I 0],
                [S ''2025-01-01 10:00:00'', I 200, I 100, I 100]])"
    by code_simp
  have inv: "\<forall>f\<in>set (csv_files [series_A, series_B]). \<forall>r\<in>set (tl (snd f)).
                row_invariant plain_decimal (file_languages (snd f)) r"
    by code_simp
  have nocoll: "\<forall>f\<in>set (csv_files [series_A, series_B]).
                  ''total_loc'' \<notin> set (file_languages (snd f))"
    by code_simp
  have "[S ''2025-01-01 10:00:00'', I 200, I 100, I 100] \<in>
          set (tl [[S ''date'', S ''total_loc'', S ''A'', S ''B''],
                   [S ''2024-11-01 00:00:00'', I 0, I 0, I 0],
                   [S ''2025-01-01 10:00:00'', I 200, I 100, I 100]])"
    by simp
  with total_is_sum_of_languages[OF run inv nocoll]
  have "\<exists>d t vs. [S ''2025-01-01 10:00:00'', I 200, I 100, I 100] = S d # I t # map I vs \<and>
              t = sum_list vs"
    by (rule bspec)
  with run show ?thesis by blast
qed

text \<open>
  Claim C1 as stated fails: the total is accumulated under the key \<^verbatim>\<open>total_loc\<close> of the
  same dictionary as the languages.  For a header with a language column of that name and
  a record that satisfies the invariant (7 = 2 + 5), the output row has the total 12 and
  the language values 2 and 12.
\<close>

theorem total_loc_language_breaks_sum:
  "row_invariant plain_decimal [''B'', ''total_loc'']
     [''e'', ''3c3c3c3'', ''2025-03-01 08:00:00'', ''eve'', ''7'', ''7'', ''2'', ''5''] \<and>
   main plain_decimal [(''code_growth-e.csv'',
          [series_header [''B'', ''total_loc''],
           [''e'', ''3c3c3c3'', ''2025-03-01 08:00:00'', ''eve'', ''7'', ''7'', ''2'', ''5'']])] =
     Inr (Some [[S ''date'', S ''total_loc'', S ''B'', S ''total_loc''],
                [S ''2024-11-01 00:00:00'', I 0, I 0, I 0],
                [S ''2025-03-01 08:00:00'', I 12, I 2, I 12]]) \<and>
   (12::int) \<noteq> sum_list [2, 12]"
  by code_simp

section \<open>The language columns\<close>

lemma sum_list_all_zero: "(\<And>x. x \<in> set xs \<Longrightarrow> f x = (0::int)) \<Longrightarrow> sum_list (map f xs) = 0"
  by (induction xs) auto

lemma lang_adds_no_field:
  "(\<And>j. j < length langs \<Longrightarrow> langs ! j = l \<Longrightarrow>
        \<not> (i + j + 6 < length row \<and> row ! (i + j + 6) \<noteq> [])) \<Longrightarrow>
   lang_adds py_int row i langs l = 0"
proof (induction langs arbitrary: i)
  case Nil
  then show ?case by simp
next
  case (Cons x xs)
  have here: "the_int (lang_field py_int row i) = 0" if "x = l"
    using Cons.prems[of 0] that by (auto simp: lang_field_def field_val_def the_int_def)
  have "lang_adds py_int row (Suc i) xs l = 0"
  proof (rule Cons.IH)
    fix j
    assume "j < length xs" "xs ! j = l"
    with Cons.prems[of "Suc j"] show "\<not> (Suc i + j + 6 < length row \<and> row ! (Suc i + j + 6) \<noteq> [])"
      by simp
  qed
  with here show ?case by simp
qed

lemma lang_adds_not_contributes:
  "\<not> contributes langs row l \<Longrightarrow> lang_adds py_int row 0 langs l = 0"
  by (rule lang_adds_no_field) (auto simp: contributes_def list_ex_iff)

lemma file_adds_records:
  "file_adds py_int rows d k =
     (\<Sum>r\<leftarrow>records_at d rows.
        (if k = ''total_loc'' then record_total py_int r else 0) + record_lang py_int (file_languages rows) r k)"
proof (cases rows)
  case Nil
  then show ?thesis by (simp add: file_adds_def records_at_def)
next
  case (Cons header rows')
  have "(\<Sum>r\<leftarrow>rows'. row_adds py_int (drop 6 header) r d k) =
        (\<Sum>r\<leftarrow>filter (\<lambda>r. 6 \<le> length r \<and> r ! 2 = d) rows'. row_adds py_int (drop 6 header) r d k)"
    by (rule sum_list_map_filter[symmetric]) (auto simp: row_adds_def)
  also have "\<dots> = (\<Sum>r\<leftarrow>filter (\<lambda>r. 6 \<le> length r \<and> r ! 2 = d) rows'.
        (if k = ''total_loc'' then record_total py_int r else 0) + record_lang py_int (drop 6 header) r k)"
    by (intro arg_cong[where f = sum_list] map_cong refl)
       (auto simp: row_adds_def record_total_def record_lang_def)
  finally show ?thesis
    by (simp add: Cons file_adds_def rows_adds_def records_at_def file_languages_def)
qed

lemma all_adds_no_contribution:
  assumes "l \<noteq> ''total_loc''" and "no_contribution fs d l"
  shows "all_adds py_int fs d l = 0"
  unfolding all_adds_def
proof (rule sum_list_all_zero)
  fix f
  assume "f \<in> set fs"
  with assms(2) have none: "\<forall>r\<in>set (records_at d (snd f)). \<not> contributes (file_languages (snd f)) r l"
    by (simp add: no_contribution_def list_all_iff)
  have "(\<Sum>r\<leftarrow>records_at d (snd f). record_lang py_int (file_languages (snd f)) r l) = 0"
    by (rule sum_list_all_zero) (simp add: none record_lang_def lang_adds_not_contributes)
  with assms(1) show "file_adds py_int (snd f) d l = 0"
    by (simp add: file_adds_records)
qed

text \<open>
  Claim C3, as amended.  In every output the language columns are the union of the
  language names of all input headers, in strictly increasing order; the header and every
  data row have exactly 2 fields more than there are languages; every data row is a date
  followed by integers, never an empty field; and the value of a language other than
  \<^verbatim>\<open>total_loc\<close> is 0 on a date on which no record has a non-empty field in a column of
  that name.
\<close>

theorem language_columns_fixed_and_filled:
  assumes "main py_int listdir = Inr (Some out)"
  shows "let languages = sorted_list_of_set (all_langs (csv_files listdir))
         in sorted_wrt (<) languages \<and>
            set languages = all_langs (csv_files listdir) \<and>
            hd out = [S ''date'', S ''total_loc''] @ map S languages \<and>
            (\<forall>r\<in>set out. length r = 2 + length languages) \<and>
            (\<forall>r\<in>set (tl out).
               (\<exists>d t vs. r = S d # I t # map I vs) \<and>
               (\<forall>j<length languages.
                  languages ! j \<noteq> ''total_loc'' \<and>
                  no_contribution (csv_files listdir) (date_of r) (languages ! j) \<longrightarrow>
                  r ! (2 + j) = I 0))"
proof -
  let ?fs = "csv_files listdir"
  let ?ls = "sorted_list_of_set (all_langs ?fs)"
  let ?a = "all_adds py_int ?fs"
  from main_SomeD[OF assms]
  have out: "out = rows_of ?a (all_dates ?fs) (all_langs ?fs)"
    by simp
  have sorted: "sorted_wrt (<) ?ls" by (rule strict_sorted_list_of_set)
  have elems: "set ?ls = all_langs ?fs" by (simp add: finite_all_langs)
  have header: "hd out = [S ''date'', S ''total_loc''] @ map S ?ls"
    by (simp add: out rows_of_def Let_def)
  have lens: "\<forall>r\<in>set out. length r = 2 + length ?ls"
    by (auto simp: out rows_of_def Let_def)
  have cells: "(\<exists>d t vs. r = S d # I t # map I vs) \<and>
               (\<forall>j<length ?ls. ?ls ! j \<noteq> ''total_loc'' \<and> no_contribution ?fs (date_of r) (?ls ! j) \<longrightarrow>
                  r ! (2 + j) = I 0)"
    if "r \<in> set (tl out)" for r
  proof -
    from that consider "r = [S INITIAL_DATE, I 0] @ replicate (length ?ls) (I 0)"
      | d where "r = [S d, I (?a d ''total_loc'')] @ map (\<lambda>l. I (?a d l)) ?ls"
      by (auto simp: out rows_of_def Let_def)
    then show ?thesis
    proof cases
      case 1
      then have "r = S INITIAL_DATE # I 0 # map I (replicate (length ?ls) 0)"
        by simp
      moreover have "r ! (2 + j) = I 0" if "j < length ?ls" for j
        using 1 that by simp
      ultimately show ?thesis by blast
    next
      case 2
      then have "r = S d # I (?a d ''total_loc'') # map I (map (?a d) ?ls)"
        by (simp add: comp_def)
      moreover have "r ! (2 + j) = I 0"
        if "j < length ?ls" "?ls ! j \<noteq> ''total_loc''" "no_contribution ?fs (date_of r) (?ls ! j)" for j
      proof -
        have "date_of r = d" using 2 by (simp add: date_of_def)
        with that have "?a d (?ls ! j) = 0"
          by (simp add: all_adds_no_contribution)
        with 2 that(1) show ?thesis by simp
      qed
      ultimately show ?thesis by blast
    qed
  qed
  from sorted elems header lens cells show ?thesis
    by (simp only: Let_def) blast
qed

text \<open>An instance: the language \<open>C\<close> has no field in the only record of its date.\<close>

theorem language_columns_fixed_and_filled_witness:
  "main plain_decimal [series_A, series_later] =
     Inr (Some [[S ''date'', S ''total_loc'', S ''A'', S ''B'', S ''C''],
                [S ''2024-11-01 00:00:00'', I 0, I 0, I 0, I 0],
                [S ''2025-01-01 10:00:00'', I 100, I 100, I 0, I 0],
                [S ''2025-03-01 08:00:00'', I 30, I 0, I 30, I 0]]) \<and>
   sorted_list_of_set (all_langs (csv_files [series_A, series_later])) = [''A'', ''B'', ''C''] \<and>
   no_contribution (csv_files [series_A, series_later]) ''2025-03-01 08:00:00'' ''C'' \<and>
   [S ''2025-03-01 08:00:00'', I 30, I 0, I 30, I 0] ! (2 + 2) = I 0"
proof -
  let ?out = "[[S ''date'', S ''total_loc'', S ''A'', S ''B'', S ''C''],
                [S ''2024-11-01 00:00:00'', I 0, I 0, I 0, I 0],
                [S ''2025-01-01 10:00:00'', I 100, I 100, I 0, I 0],
                [S ''2025-03-01 08:00:00'', I 30, I 0, I 30, I 0]]"
  let ?r = "[S ''2025-03-01 08:00:00'', I 30, I 0, I 30, I 0]"
  have run: "main plain_decimal [series_A, series_later] = Inr (Some ?out)"
    by code_simp
  have langs: "sorted_list_of_set (all_langs (csv_files [series_A, series_later])) = [''A'', ''B'', ''C'']"
    by code_simp
  have nc: "no_contribution (csv_files [series_A, series_later]) ''2025-03-01 08:00:00'' ''C''"
    by code_simp
  note shape = language_columns_fixed_and_filled[OF run, unfolded Let_def langs]
  then have rows: "\<forall>r\<in>set (tl ?out).
      (\<exists>d t vs. r = S d # I t # map I vs) \<and>
      (\<forall>j<length [''A'', ''B'', ''C''].
          [''A'', ''B'', ''C''] ! j \<noteq> ''total_loc'' \<and>
          no_contribution (csv_files [series_A, series_later]) (date_of r) ([''A'', ''B'', ''C''] ! j) \<longrightarrow>
          r ! (2 + j) = I 0)"
    by blast
  have "?r \<in> set (tl ?out)" by simp
  with rows have "\<forall>j<length [''A'', ''B'', ''C''].
          [''A'', ''B'', ''C''] ! j \<noteq> ''total_loc'' \<and>
          no_contribution (csv_files [series_A, series_later]) (date_of ?r) ([''A'', ''B'', ''C''] ! j) \<longrightarrow>
          ?r ! (2 + j) = I 0"
    by blast
  then have "[''A'', ''B'', ''C''] ! 2 \<noteq> ''total_loc'' \<and>
          no_contribution (csv_files [series_A, series_later]) (date_of ?r) ([''A'', ''B'', ''C''] ! 2) \<longrightarrow>
          ?r ! (2 + 2) = I 0"
    by simp
  moreover have "date_of ?r = ''2025-03-01 08:00:00''" by (simp add: date_of_def)
  moreover have "[''A'', ''B'', ''C''] ! 2 = ''C''" by simp
  ultimately have "?r ! (2 + 2) = I 0"
    using nc by simp
  with run langs nc show ?thesis by blast
qed

text \<open>
  Claim C3 as stated fails in its last part: the total is accumulated under the key
  \<^verbatim>\<open>total_loc\<close> of the dictionary that holds the languages, so a language column of
  that name with no field in the record is written with the record's
  \<^verbatim>\<open>lines_of_code\<close>, not with 0.
\<close>

theorem total_loc_language_filled_from_total:
  "main plain_decimal [(''code_growth-e.csv'',
          [series_header [''total_loc''],
           [''e'', ''3c3c3c3'', ''2025-03-01 08:00:00'', ''eve'', ''5'', ''5'']])] =
     Inr (Some [[S ''date'', S ''total_loc'', S ''total_loc''],
                [S ''2024-11-01 00:00:00'', I 0, I 0],
                [S ''2025-03-01 08:00:00'', I 5, I 5]]) \<and>
   no_contribution [(''code_growth-e.csv'',
          [series_header [''total_loc''],
           [''e'', ''3c3c3c3'', ''2025-03-01 08:00:00'', ''eve'', ''5'', ''5'']])]
     ''2025-03-01 08:00:00'' ''total_loc''"
  by code_simp

section \<open>Sums over the series\<close>

lemma all_adds_records:
  "all_adds py_int fs d k =
     (if k = ''total_loc'' then (\<Sum>f\<leftarrow>fs. \<Sum>r\<leftarrow>records_at d (snd f). record_total py_int r) else 0) +
     (\<Sum>f\<leftarrow>fs. \<Sum>r\<leftarrow>records_at d (snd f). record_lang py_int (file_languages (snd f)) r k)"
  by (induction fs) (simp_all add: all_adds_def file_adds_records sum_list_addf)

lemma record_lang_notin: "k \<notin> set languages \<Longrightarrow> record_lang py_int languages r k = 0"
  by (simp add: record_lang_def lang_adds_notin)

text \<open>
  Claim C5, as amended.  For a date \<open>D\<close> other than the anchor date on which some series
  reports, and with no language column named \<^verbatim>\<open>total_loc\<close>, the output has the row of
  \<open>D\<close> whose total is the sum of \<^verbatim>\<open>lines_of_code\<close> over all records of all series at
  \<open>D\<close>, and whose value for each language is the sum of the records' values for that
  language.
\<close>

theorem rows_sum_over_series:
  assumes run: "main py_int listdir = Inr (Some out)"
    and later: "D \<noteq> INITIAL_DATE"
    and reported: "\<exists>f\<in>set (csv_files listdir). records_at D (snd f) \<noteq> []"
    and nocoll: "\<forall>f\<in>set (csv_files listdir). ''total_loc'' \<notin> set (file_languages (snd f))"
  shows "[S D, I (\<Sum>f\<leftarrow>csv_files listdir. \<Sum>r\<leftarrow>records_at D (snd f). record_total py_int r)] @
         map (\<lambda>l. I (\<Sum>f\<leftarrow>csv_files listdir. \<Sum>r\<leftarrow>records_at D (snd f).
                        record_lang py_int (file_languages (snd f)) r l))
             (sorted_list_of_set (all_langs (csv_files listdir)))
         \<in> set (drop 2 out)"
proof -
  let ?fs = "csv_files listdir"
  let ?ls = "sorted_list_of_set (all_langs ?fs)"
  let ?a = "all_adds py_int ?fs"
  from main_SomeD[OF run]
  have out: "out = rows_of ?a (all_dates ?fs) (all_langs ?fs)"
    by simp
  from reported obtain f r where "f \<in> set ?fs" "r \<in> set (records_at D (snd f))"
    by (meson last_in_set)
  then have "D \<in> all_dates ?fs"
    by (auto simp: all_dates_iff records_at_def)
  with later have "D \<in> set (sorted_list_of_set (all_dates ?fs - {INITIAL_DATE}))"
    by (simp add: finite_all_dates)
  then have "(\<lambda>d. [S d, I (?a d ''total_loc'')] @ map (\<lambda>l. I (?a d l)) ?ls) D \<in>
             (\<lambda>d. [S d, I (?a d ''total_loc'')] @ map (\<lambda>l. I (?a d l)) ?ls) `
               set (sorted_list_of_set (all_dates ?fs - {INITIAL_DATE}))"
    by (rule imageI)
  then have row: "[S D, I (?a D ''total_loc'')] @ map (\<lambda>l. I (?a D l)) ?ls \<in> set (drop 2 out)"
    by (simp add: out rows_of_def Let_def)
  have "(\<Sum>f\<leftarrow>?fs. \<Sum>r\<leftarrow>records_at D (snd f). record_lang py_int (file_languages (snd f)) r ''total_loc'') = 0"
    by (intro sum_list_all_zero) (simp add: nocoll record_lang_notin)
  then have total: "?a D ''total_loc'' = (\<Sum>f\<leftarrow>?fs. \<Sum>r\<leftarrow>records_at D (snd f). record_total py_int r)"
    by (simp add: all_adds_records)
  have "l \<noteq> ''total_loc''" if "l \<in> set ?ls" for l
    using that nocoll by (auto simp: finite_all_langs all_langs_def)
  then have langs: "map (\<lambda>l. I (?a D l)) ?ls =
      map (\<lambda>l. I (\<Sum>f\<leftarrow>?fs. \<Sum>r\<leftarrow>records_at D (snd f). record_lang py_int (file_languages (snd f)) r l)) ?ls"
    by (intro map_cong refl) (simp add: all_adds_records)
  from row show ?thesis
    by (simp only: total langs)
qed

text \<open>An instance: two series reporting 100 on the same date, for the languages \<open>A\<close>
  and \<open>B\<close>, give the row 200, 100, 100.\<close>

theorem rows_sum_over_series_witness:
  "main plain_decimal [series_A, series_B] =
     Inr (Some [[S ''date'', S ''total_loc'', S ''A'', S ''B''],
                [S ''2024-11-01 00:00:00'', I 0, I 0, I 0],
                [S ''2025-01-01 10:00:00'', I 200, I 100, I 100]]) \<and>
   [S ''2025-01-01 10:00:00'', I 200, I 100, I 100] \<in>
     set (drop 2 [[S ''date'', S ''total_loc'', S ''A'', S ''B''],
                [S ''2024-11-01 00:00:00'', I 0, I 0, I 0],
                [S ''2025-01-01 10:00:00'', I 200, I 100, I 100]])"
proof -
  let ?D = "''2025-01-01 10:00:00''"
  let ?dir = "[series_A, series_B]"
  have run: "main plain_decimal ?dir =
     Inr (Some [[S ''date'', S ''total_loc'', S ''A'', S ''B''],
                [S ''2024-11-01 00:00:00'', I 0, I 0, I 0],
                [S ''2025-01-01 10:00:00'', I 200, I 100, I 100]])"
    by code_simp
  have later: "?D \<noteq> INITIAL_DATE"
    by code_simp
  have reported: "\<exists>f\<in>set (csv_files ?dir). records_at ?D (snd f) \<noteq> []"
    by code_simp
  have nocoll: "\<forall>f\<in>set (csv_files ?dir). ''total_loc'' \<notin> set (file_languages (snd f))"
    by code_simp
  have sums: "[S ?D, I (\<Sum>f\<leftarrow>csv_files ?dir. \<Sum>r\<leftarrow>records_at ?D (snd f). record_total plain_decimal r)] @
         map (\<lambda>l. I (\<Sum>f\<leftarrow>csv_files ?dir. \<Sum>r\<leftarrow>records_at ?D (snd f).
                        record_lang plain_decimal (file_languages (snd f)) r l))
             (sorted_list_of_set (all_langs (csv_files ?dir))) =
         [S ?D, I 200, I 100, I 100]"
    by code_simp
  from rows_sum_over_series[OF run later reported nocoll]
  have "[S ?D, I 200, I 100, I 100] \<in>
     set (drop 2 [[S ''date'', S ''total_loc'', S ''A'', S ''B''],
                [S ''2024-11-01 00:00:00'', I 0, I 0, I 0],
                [S ''2025-01-01 10:00:00'', I 200, I 100, I 100]])"
    by (simp only: sums)
  with run show ?thesis by blast
qed

text \<open>
  Claim C5 as stated fails on the anchor date, whose records are left out of the output:
  two series reporting 100 there give the row 0, 0, 0.  It also fails for a language
  column named \<^verbatim>\<open>total_loc\<close>, which shares its key with the total: the total of the
  row is 300.
\<close>

theorem anchor_date_records_not_summed:
  "main plain_decimal [(''code_growth-x.csv'',
          [series_header [''A''],
           [''x'', ''5e5e5e5'', ''2024-11-01 00:00:00'', ''xi'', ''100'', ''100'', ''100'']]),
         (''code_growth-y.csv'',
          [series_header [''B''],
           [''y'', ''6f6f6f6'', ''2024-11-01 00:00:00'', ''yo'', ''100'', ''100'', ''100'']])] =
     Inr (Some [[S ''date'', S ''total_loc'', S ''A'', S ''B''],
                [S ''2024-11-01 00:00:00'', I 0, I 0, I 0]]) \<and>
   main plain_decimal [(''code_growth-x.csv'',
          [series_header [''total_loc''],
           [''x'', ''5e5e5e5'', ''2025-01-01 10:00:00'', ''xi'', ''100'', ''100'', ''100'']]),
         (''code_growth-y.csv'',
          [series_header [''B''],
           [''y'', ''6f6f6f6'', ''2025-01-01 10:00:00'', ''yo'', ''100'', ''100'', ''100'']])] =
     Inr (Some [[S ''date'', S ''total_loc'', S ''B'', S ''total_loc''],
                [S ''2024-11-01 00:00:00'', I 0, I 0, I 0],
                [S ''2025-01-01 10:00:00'', I 300, I 100, I 300]])"
  by code_simp

section \<open>The deltas of the per-repository series\<close>

lemma keys_fold_update:
  "fst ` set (fold (\<lambda>lang. AList.update lang (0::int)) langs al) = fst ` set al \<union> set langs"
  by (induction langs arbitrary: al) (auto simp: dom_update)

lemma keys_init_lang_lines: "fst ` set (init_lang_lines language_columns) = set language_columns"
  by (simp add: init_lang_lines_def keys_fold_update)

lemma keys_count_lines:
  "count_lines cloc_data (lang_lines, total_lines) = Some (lang_lines', total_lines') \<Longrightarrow>
   fst ` set lang_lines' = fst ` set lang_lines"
proof (induction cloc_data arbitrary: lang_lines total_lines)
  case Nil
  then show ?case by simp
next
  case (Cons entry rest)
  obtain lang code where entry: "entry = (lang, code)" by (cases entry)
  show ?case
  proof (cases "lang \<notin> set [''header'', ''SUM''] \<and> lang \<in> set (map fst lang_lines)")
    case True
    with Cons.prems entry obtain n where n: "code = Some n"
      and run: "count_lines rest (AList.update lang n lang_lines, total_lines + n) =
                  Some (lang_lines', total_lines')"
      by (cases code) auto
    from Cons.IH[OF run] True show ?thesis
      by (auto simp: dom_update)
  next
    case False
    with Cons.prems entry have "count_lines rest (lang_lines, total_lines) = Some (lang_lines', total_lines')"
      by (auto split: if_splits)
    from Cons.IH[OF this] show ?thesis .
  qed
qed

lemma those_map_Some:
  "(\<And>x. x \<in> set xs \<Longrightarrow> f x \<noteq> None) \<Longrightarrow> \<exists>vs. those (map f xs) = Some vs"
proof (induction xs)
  case Nil
  then show ?case by simp
next
  case (Cons a xs)
  from Cons.prems[of a] obtain y where y: "f a = Some y" by auto
  from Cons.IH Cons.prems obtain vs where "those (map f xs) = Some vs" by auto
  with y show ?case by simp
qed

lemma process_commit_failed:
  "commit_total language_columns c = None \<Longrightarrow>
   process_commit repo language_columns i c prev = (None, prev)"
  by (auto simp: commit_total_def process_commit_def split: option.splits)

text \<open>A commit that is counted moves the baseline to its total, whether or not its row
  can be written.\<close>

lemma process_commit_counted:
  assumes "commit_total language_columns c = Some t"
  shows "\<exists>row. process_commit repo language_columns i c prev =
                 (if writes c = Repo_write_raises then None else Some row, t) \<and>
               row_total row = t \<and> row_delta row = (if i > 0 then t - prev else t)"
proof -
  from assms obtain cloc_data lang_lines where
    data: "cloc c = Some cloc_data" and
    counted: "count_lines cloc_data (init_lang_lines language_columns, 0) = Some (lang_lines, t)"
    by (auto simp: commit_total_def split: option.splits)
  have "fst ` set lang_lines = set language_columns"
    using keys_count_lines[OF counted] by (simp add: keys_init_lang_lines)
  then have "map_of lang_lines l \<noteq> None" if "l \<in> set language_columns" for l
    using that by (metis map_of_eq_None_iff)
  then obtain vals where vals: "those (map (map_of lang_lines) language_columns) = Some vals"
    using those_map_Some[of language_columns "map_of lang_lines"] by blast
  let ?delta = "if i > 0 then t - prev else t"
  let ?row = "[S repo, S (take 7 (hexsha c)), S (committed_date c), S (author_name c),
               I t, I ?delta] @ map I vals"
  have "process_commit repo language_columns i c prev =
          (if writes c = Repo_write_raises then None else Some ?row, t)"
    by (cases "writes c") (simp_all add: process_commit_def data counted vals Let_def)
  moreover have "row_total ?row = t" and "row_delta ?row = ?delta"
    by (simp_all add: row_total_def row_delta_def cell_int_def)
  ultimately show ?thesis by blast
qed

text \<open>
  On a run in which no write to the per-repository file raises, the rows are those of the
  counted commits in order, and each delta is the total of its row minus the total of the
  row before it, the first one its own total.
\<close>

lemma deltas_when_rows_are_written:
  assumes "\<forall>c\<in>set commits. writes c \<noteq> Repo_write_raises"
  shows "(i = 0 \<longrightarrow> prev = 0) \<Longrightarrow>
         map row_total (process_commits repo language_columns i commits prev) =
           List.map_filter (commit_total language_columns) commits \<and>
         map row_delta (process_commits repo language_columns i commits prev) =
           deltas_from prev (map row_total (process_commits repo language_columns i commits prev))"
  using assms
proof (induction commits arbitrary: i prev)
  case Nil
  then show ?case by simp
next
  case (Cons c commits)
  from Cons.prems have w: "writes c \<noteq> Repo_write_raises"
    and rest: "\<forall>c\<in>set commits. writes c \<noteq> Repo_write_raises"
    by simp_all
  show ?case
  proof (cases "commit_total language_columns c")
    case None
    from Cons.IH[OF _ rest, of "Suc i" prev] show ?thesis
      by (simp add: process_commit_failed[OF None] None)
  next
    case (Some t)
    from process_commit_counted[OF Some, of repo i prev] w obtain row where
      step: "process_commit repo language_columns i c prev = (Some row, t)" and
      total: "row_total row = t" and delta: "row_delta row = (if i > 0 then t - prev else t)"
      by auto
    from delta Cons.prems(1) have delta': "row_delta row = t - prev"
      by (cases "i = 0") simp_all
    from Cons.IH[OF _ rest, of "Suc i" t] show ?thesis
      by (simp add: step total delta' Some)
  qed
qed

text \<open>
  Claim C9.  The claim: the delta of every recorded commit is its total minus the total of
  the recorded commit before it, a commit that fails being skipped, and the delta of the
  first recorded commit is its own total.  The loop breaks it when a row cannot be
  written: \<^verbatim>\<open>prev_total_lines\<close> is assigned at line 245, before the writes of lines 262
  to 266, which are inside the same \<^verbatim>\<open>try\<close>.  Here the first commit is counted with 10
  lines and its row is not written; the second one, with 25 lines, is the first and only
  row of the file, and its delta is 15, not 25.
\<close>

theorem delta_baseline_moves_on_failed_write:
  "commit_rows ''repo'' [''Python''] unwritable_then_written =
     [[S ''repo'', S ''2b3c4d5'', S ''2025-01-02 10:00:00'', S ''ann'', I 25, I 15, I 25]] \<and>
   map row_total (commit_rows ''repo'' [''Python''] unwritable_then_written) = [25] \<and>
   map row_delta (commit_rows ''repo'' [''Python''] unwritable_then_written) = [15]"
  by code_simp

end
